theory Spec2Isabelle
  imports Complex_Main "HOL-Library.AList"
begin

section \<open>Values held by a table\<close>

text \<open>
  The program is \<^verbatim>\<open>src/bin/zim_prioritisation.py\<close>. It works on pandas data frames, so the
  embedding starts with the values a frame holds after \<^verbatim>\<open>read_csv\<close>.

  A 64-bit float is either not-a-number, an infinity or a finite value. Finite values are
  rationals here: rounding and the sign of zero are not modelled, the order, the infinities and
  not-a-number are. In pandas a missing value of a column is the float not-a-number.
\<close>

datatype float64 = NaN | NegInf | Fin rat | PosInf

text \<open>The comparison \<^verbatim>\<open>a <= b\<close> of two floats: false as soon as one side is not-a-number.\<close>

fun fle :: "float64 \<Rightarrow> float64 \<Rightarrow> bool" where
  "fle NaN _ = False"
| "fle _ NaN = False"
| "fle NegInf _ = True"
| "fle _ PosInf = True"
| "fle (Fin a) (Fin b) = (a \<le> b)"
| "fle _ _ = False"

text \<open>The comparison \<^verbatim>\<open>a > b\<close>.\<close>

fun fgt :: "float64 \<Rightarrow> float64 \<Rightarrow> bool" where
  "fgt NaN _ = False"
| "fgt _ NaN = False"
| "fgt a b = (\<not> fle a b)"

text \<open>
  The element-wise division \<^verbatim>\<open>a / b\<close> of two numeric columns. pandas raises nothing on a zero
  divisor: a non-zero value over zero is an infinity, zero over zero is not-a-number.
\<close>

fun fdiv :: "float64 \<Rightarrow> float64 \<Rightarrow> float64" where
  "fdiv NaN _ = NaN"
| "fdiv _ NaN = NaN"
| "fdiv (Fin a) (Fin b) =
     (if b = 0 then (if a = 0 then NaN else if 0 < a then PosInf else NegInf)
      else Fin (a / b))"
| "fdiv (Fin a) _ = Fin 0"
| "fdiv PosInf (Fin b) = (if 0 \<le> b then PosInf else NegInf)"
| "fdiv NegInf (Fin b) = (if 0 \<le> b then NegInf else PosInf)"
| "fdiv _ _ = NaN"

text \<open>A cell of a frame: a number (missing is \<open>Num NaN\<close>), a string or a boolean.\<close>

datatype cell = Num float64 | Str string | Bool bool

definition isna :: "cell \<Rightarrow> bool" where
  "isna c = (c = Num NaN)"

text \<open>The number a cell counts as in a comparison; a string has none.\<close>

fun cell_num :: "cell \<Rightarrow> float64 option" where
  "cell_num (Num x) = Some x"
| "cell_num (Bool b) = Some (Fin (if b then 1 else 0))"
| "cell_num (Str s) = None"

text \<open>
  The kind of a column. \<^verbatim>\<open>read_csv\<close> gives a column the type \<^verbatim>\<open>bool\<close> when it has rows and
  every one of them reads \<^verbatim>\<open>True\<close> or \<^verbatim>\<open>False\<close>; a column that holds booleans next to missing
  values or strings is a column of objects.
\<close>

definition is_bool_col :: "cell list \<Rightarrow> bool" where
  "is_bool_col vs = (vs \<noteq> [] \<and> list_all (\<lambda>c. case c of Bool b \<Rightarrow> True | _ \<Rightarrow> False) vs)"

text \<open>
  \<^verbatim>\<open>pd.to_numeric(series, errors='coerce')\<close>. A boolean column is numeric for pandas and comes
  back as it is, and so does a column of numbers. A column of objects is converted value by
  value (\<open>coerce_object\<close>): a number stays, a string is read as a number, and a boolean that
  stands among other values becomes 1.0 or 0.0. How pandas reads a string as a number is not
  part of the repository: it is the parameter \<open>pf\<close>, which gives \<open>NaN\<close> for a string that is
  not numeric.
\<close>

fun coerce_object :: "(string \<Rightarrow> float64) \<Rightarrow> cell \<Rightarrow> cell" where
  "coerce_object pf (Num x) = Num x"
| "coerce_object pf (Bool b) = Num (Fin (if b then 1 else 0))"
| "coerce_object pf (Str s) = Num (pf s)"

definition to_numeric :: "(string \<Rightarrow> float64) \<Rightarrow> cell list \<Rightarrow> cell list" where
  "to_numeric pf vs = (if is_bool_col vs then vs else map (coerce_object pf) vs)"

text \<open>
  The larger of two values of a row, as \<^verbatim>\<open>max(axis=1, skipna=True)\<close> folds a row from left to
  right: a missing value never wins, and of two values that compare equal (\<^verbatim>\<open>True\<close> and 1.0)
  the earlier one stays. Over columns of floats this is the largest float, over boolean columns
  the largest boolean; over a mix of both pandas compares the values as Python objects.
\<close>

definition cell_ge :: "cell \<Rightarrow> cell \<Rightarrow> bool" where
  "cell_ge a b = (case (cell_num a, cell_num b) of (Some x, Some y) \<Rightarrow> fle y x | _ \<Rightarrow> False)"

definition cmax_skipna :: "cell \<Rightarrow> cell \<Rightarrow> cell" where
  "cmax_skipna a b = (if isna a then b else if isna b then a else if cell_ge a b then a else b)"

definition row_max :: "cell list \<Rightarrow> cell" where
  "row_max r = foldl cmax_skipna (Num NaN) r"

section \<open>Errors\<close>

text \<open>
  \<open>SystemExit\<close> carries the message of the program's own \<^verbatim>\<open>raise SystemExit(...)\<close>. The others
  are raised by pandas. \<open>DuplicateLabels\<close> stands for a run that reaches the join with a
  frame in which two columns share a name: what pandas does from there on is not modelled.
  \<open>NotImplementedError\<close> is what pandas raises for the division of two boolean columns.
\<close>

datatype error =
    SystemExit string
  | KeyError string
  | TypeError
  | AttributeError
  | ValueError
  | MergeError
  | DuplicateLabels
  | NotImplementedError

definition ebind :: "error + 'a \<Rightarrow> ('a \<Rightarrow> error + 'b) \<Rightarrow> error + 'b" where
  "ebind m f = (case m of Inl e \<Rightarrow> Inl e | Inr x \<Rightarrow> f x)"

section \<open>Strings\<close>

text \<open>\<^verbatim>\<open>str.lower\<close> on ASCII letters (a \<open>char\<close> is a byte).\<close>

definition lower_char :: "char \<Rightarrow> char" where
  "lower_char c =
     (let n = (of_char c :: nat) in if 65 \<le> n \<and> n \<le> 90 then char_of (n + 32) else c)"

definition lower :: "string \<Rightarrow> string" where
  "lower s = map lower_char s"

definition startswith :: "string \<Rightarrow> string \<Rightarrow> bool" where
  "startswith p s = (take (length p) s = p)"

text \<open>\<^verbatim>\<open>sub in s\<close>: \<open>sub\<close> occurs in \<open>s\<close> as a contiguous piece.\<close>

fun str_in :: "string \<Rightarrow> string \<Rightarrow> bool" where
  "str_in sub [] = (sub = [])"
| "str_in sub (c # cs) = (startswith sub (c # cs) \<or> str_in sub cs)"

definition quote :: "string \<Rightarrow> string" where
  "quote s = [CHR 0x27] @ s @ [CHR 0x27]"

fun join_comma :: "string list \<Rightarrow> string" where
  "join_comma [] = []"
| "join_comma [x] = x"
| "join_comma (x # y # zs) = x @ '', '' @ join_comma (y # zs)"

text \<open>The text of a list of column names inside an f-string (names without quotes or escapes).\<close>

definition list_repr :: "string list \<Rightarrow> string" where
  "list_repr xs = ''['' @ join_comma (map quote xs) @ '']''"

section \<open>Data frames\<close>

text \<open>
  A frame is its row labels and its columns in order, each column a name and one cell per row.
  Two columns may share a name after a \<^verbatim>\<open>rename\<close>.
\<close>

record frame =
  index :: "nat list"
  cols :: "(string \<times> cell list) list"

definition names :: "frame \<Rightarrow> string list" where
  "names df = map fst (cols df)"

definition nrows :: "frame \<Rightarrow> nat" where
  "nrows df = length (index df)"

text \<open>Every column has one cell per row.\<close>

definition wf_frame :: "frame \<Rightarrow> bool" where
  "wf_frame df = list_all (\<lambda>p. length (snd p) = nrows df) (cols df)"

text \<open>\<^verbatim>\<open>df[c]\<close> for one label.\<close>

definition getitem :: "frame \<Rightarrow> string \<Rightarrow> error + cell list" where
  "getitem df c = (case map_of (cols df) c of None \<Rightarrow> Inl (KeyError c) | Some vs \<Rightarrow> Inr vs)"

text \<open>\<^verbatim>\<open>df[c] = vs\<close>: replaces the column in place, or appends a new last column.\<close>

definition setitem :: "frame \<Rightarrow> string \<Rightarrow> cell list \<Rightarrow> frame" where
  "setitem df c vs = df\<lparr>cols := AList.update c vs (cols df)\<rparr>"

text \<open>\<^verbatim>\<open>df.rename(columns=m, inplace=True)\<close>.\<close>

definition renamed :: "(string \<rightharpoonup> string) \<Rightarrow> string \<Rightarrow> string" where
  "renamed m n = (case m n of None \<Rightarrow> n | Some n' \<Rightarrow> n')"

definition rename :: "(string \<rightharpoonup> string) \<Rightarrow> frame \<Rightarrow> frame" where
  "rename m df = df\<lparr>cols := map (\<lambda>p. (renamed m (fst p), snd p)) (cols df)\<rparr>"

text \<open>\<^verbatim>\<open>df[[l1, ..., lk]]\<close>: for each label every column of that name; a label of no column raises.\<close>

fun select_cols :: "(string \<times> cell list) list \<Rightarrow> string list \<Rightarrow> error + (string \<times> cell list) list" where
  "select_cols cs [] = Inr []"
| "select_cols cs (l # ls) =
     (if l \<notin> set (map fst cs) then Inl (KeyError l)
      else ebind (select_cols cs ls) (\<lambda>r. Inr (filter (\<lambda>p. fst p = l) cs @ r)))"

definition select :: "frame \<Rightarrow> string list \<Rightarrow> error + frame" where
  "select df ls = ebind (select_cols (cols df) ls) (\<lambda>cs. Inr (df\<lparr>cols := cs\<rparr>))"

text \<open>The cells of a list of columns at row position \<open>i\<close>.\<close>

definition row_at :: "'a list list \<Rightarrow> nat \<Rightarrow> 'a list" where
  "row_at cs i = map (\<lambda>vs. vs ! i) cs"

text \<open>The cells of a column as numbers; comparing or maximising a string raises.\<close>

definition as_floats :: "cell list \<Rightarrow> error + float64 list" where
  "as_floats vs = (case those (map cell_num vs) of None \<Rightarrow> Inl TypeError | Some xs \<Rightarrow> Inr xs)"

definition le_scalar :: "cell list \<Rightarrow> float64 \<Rightarrow> error + bool list" where
  "le_scalar vs t = ebind (as_floats vs) (\<lambda>xs. Inr (map (\<lambda>x. fle x t) xs))"

definition gt_scalar :: "cell list \<Rightarrow> float64 \<Rightarrow> error + bool list" where
  "gt_scalar vs t = ebind (as_floats vs) (\<lambda>xs. Inr (map (\<lambda>x. fgt x t) xs))"

text \<open>\<^verbatim>\<open>series.isin(terms)\<close> for a collection of strings.\<close>

definition cell_isin :: "cell \<Rightarrow> string list \<Rightarrow> bool" where
  "cell_isin c terms = (case c of Str s \<Rightarrow> s \<in> set terms | _ \<Rightarrow> False)"

definition isin :: "cell list \<Rightarrow> string list \<Rightarrow> bool list" where
  "isin vs terms = map (\<lambda>c. cell_isin c terms) vs"

text \<open>
  \<^verbatim>\<open>series.str.contains(pat, na=False)\<close> for a pattern without special characters. The accessor
  exists on a column of strings only: \<^verbatim>\<open>read_csv\<close> makes a column numeric (or boolean) when it
  has rows and none of them is a string.
\<close>

definition cell_contains :: "cell \<Rightarrow> string \<Rightarrow> bool" where
  "cell_contains c pat = (case c of Str s \<Rightarrow> str_in pat s | _ \<Rightarrow> False)"

definition str_contains :: "cell list \<Rightarrow> string \<Rightarrow> error + bool list" where
  "str_contains vs pat =
     (if vs \<noteq> [] \<and> list_all (\<lambda>c. cell_num c \<noteq> None) vs then Inl AttributeError
      else Inr (map (\<lambda>c. cell_contains c pat) vs))"

text \<open>\<^verbatim>\<open>series.fillna(0.0)\<close>.\<close>

definition fillna0 :: "cell list \<Rightarrow> cell list" where
  "fillna0 vs = map (\<lambda>c. if isna c then Num (Fin 0) else c) vs"

text \<open>\<^verbatim>\<open>df.loc[mask, c] = v\<close>; a column that does not exist yet is created, missing elsewhere.\<close>

definition loc_set :: "frame \<Rightarrow> bool list \<Rightarrow> string \<Rightarrow> cell \<Rightarrow> frame" where
  "loc_set df bs c v =
     (case map_of (cols df) c of
        None \<Rightarrow> setitem df c (map (\<lambda>b. if b then v else Num NaN) bs)
      | Some vs \<Rightarrow> setitem df c (map2 (\<lambda>b x. if b then v else x) bs vs))"

text \<open>\<^verbatim>\<open>df[mask]\<close> for a boolean mask: the rows at which the mask is true, labels kept.\<close>

definition keep_by :: "bool list \<Rightarrow> 'a list \<Rightarrow> 'a list" where
  "keep_by bs xs = map snd (filter fst (zip bs xs))"

definition bool_index :: "frame \<Rightarrow> bool list \<Rightarrow> frame" where
  "bool_index df bs =
     \<lparr>index = keep_by bs (index df),
      cols = map (\<lambda>p. (fst p, keep_by bs (snd p))) (cols df)\<rparr>"

text \<open>
  \<^verbatim>\<open>df[c] = series\<close> where the series belongs to another frame and has the row labels
  \<open>labels\<close>. pandas aligns the series on the row labels of the frame, and a label the series
  lacks gets a missing value. A frame without rows is different: when the series is not empty,
  pandas first gives the frame the row labels of the series, which fills every column the frame
  already has with missing values, and then stores the series.
\<close>

definition reindex_empty :: "frame \<Rightarrow> nat list \<Rightarrow> frame" where
  "reindex_empty df labels =
     \<lparr>index = labels,
      cols = map (\<lambda>p. (fst p, replicate (length labels) (Num NaN))) (cols df)\<rparr>"

definition setitem_aligned :: "frame \<Rightarrow> string \<Rightarrow> nat list \<Rightarrow> cell list \<Rightarrow> frame" where
  "setitem_aligned df c labels vs =
     (if index df = [] \<and> vs \<noteq> [] then setitem (reindex_empty df labels) c vs
      else setitem df c
             (map (\<lambda>l. case map_of (zip labels vs) l of None \<Rightarrow> Num NaN | Some v \<Rightarrow> v)
                (index df)))"

section \<open>The cohort table loader\<close>

text \<open>
  \<^verbatim>\<open>cols = {c.lower(): c for c in df.columns}\<close>: the columns are entered from left to right, so
  of two names with the same lower-case form the later one stays.
\<close>

definition col_dict :: "string list \<Rightarrow> (string \<rightharpoonup> string)" where
  "col_dict ns = foldl (\<lambda>m c. m(lower c \<mapsto> c)) Map.empty ns"

definition dict_get :: "(string \<rightharpoonup> string) \<Rightarrow> string \<Rightarrow> error + string" where
  "dict_get d k = (case d k of None \<Rightarrow> Inl (KeyError k) | Some v \<Rightarrow> Inr v)"

text \<open>The loop over \<^verbatim>\<open>required\<close>: the first name that is not a key of \<^verbatim>\<open>cols\<close> ends the run.\<close>

fun check_required :: "(string \<rightharpoonup> string) \<Rightarrow> string list \<Rightarrow> string list \<Rightarrow> error + unit" where
  "check_required d ns [] = Inr ()"
| "check_required d ns (r # rs) =
     (if d r = None
      then Inl (SystemExit (''Zimbabwe DB file must contain a '' @ quote r
                  @ '' column (case-insensitive). Got: '' @ list_repr ns))
      else check_required d ns rs)"

text \<open>
  \<^verbatim>\<open>df[c_ac] / df[c_an]\<close> on two columns. pandas refuses to divide a boolean column by a
  boolean column; a boolean column and a column of numbers divide as numbers.
\<close>

definition div_series :: "cell list \<Rightarrow> cell list \<Rightarrow> error + cell list" where
  "div_series xs ys =
     (if is_bool_col xs \<and> is_bool_col ys then Inl NotImplementedError
      else ebind (as_floats xs) (\<lambda>fx. ebind (as_floats ys) (\<lambda>fy.
             Inr (map2 (\<lambda>a b. Num (fdiv a b)) fx fy))))"

text \<open>Lines 31 to 48: \<^verbatim>\<open>zim_AF\<close> is taken under its standard name, or computed from count and number.\<close>

definition ensure_zim_AF :: "(string \<Rightarrow> float64) \<Rightarrow> (string \<rightharpoonup> string) \<Rightarrow> frame \<Rightarrow> error + frame" where
  "ensure_zim_AF pf d df =
     (case d ''zim_af'' of
        None \<Rightarrow>
          (case (d ''zim_ac'', d ''zim_an'') of
             (Some c_ac, Some c_an) \<Rightarrow>
               ebind (getitem df c_ac) (\<lambda>ac.
               let df1 = setitem df c_ac (to_numeric pf ac) in
               ebind (getitem df1 c_an) (\<lambda>an.
               let df2 = setitem df1 c_an (to_numeric pf an) in
               ebind (getitem df2 c_ac) (\<lambda>ac2.
               ebind (getitem df2 c_an) (\<lambda>an2.
               ebind (div_series ac2 an2) (\<lambda>af.
               Inr (setitem df2 ''zim_AF'' af))))))
           | _ \<Rightarrow>
               Inl (SystemExit
                 ''Zimbabwe DB must have zim_AF or zim_AC + zim_AN (case-insensitive).''))
      | Some c_af \<Rightarrow>
          Inr (if c_af \<noteq> ''zim_AF'' then rename (Map.empty(c_af \<mapsto> ''zim_AF'')) df else df))"

definition load_zim_db :: "(string \<Rightarrow> float64) \<Rightarrow> frame \<Rightarrow> error + frame" where
  "load_zim_db pf df =
     (let d = col_dict (names df) in
      ebind (check_required d (names df) [''chr'', ''start'', ''ref'', ''alt'']) (\<lambda>_.
      ebind (ensure_zim_AF pf d df) (\<lambda>df1.
      ebind (dict_get d ''chr'') (\<lambda>c_chr.
      ebind (dict_get d ''start'') (\<lambda>c_start.
      ebind (dict_get d ''ref'') (\<lambda>c_ref.
      ebind (dict_get d ''alt'') (\<lambda>c_alt.
      select
        (rename (Map.empty(c_chr \<mapsto> ''Chr'', c_start \<mapsto> ''Start'',
                           c_ref \<mapsto> ''Ref'', c_alt \<mapsto> ''Alt'')) df1)
        [''Chr'', ''Start'', ''Ref'', ''Alt'', ''zim_AF''])))))))"

section \<open>The max-column builder\<close>

text \<open>The loop \<^verbatim>\<open>for c in candidates: df[c] = pd.to_numeric(df[c], errors='coerce')\<close>.\<close>

fun coerce_cols :: "(string \<Rightarrow> float64) \<Rightarrow> frame \<Rightarrow> string list \<Rightarrow> error + frame" where
  "coerce_cols pf df [] = Inr df"
| "coerce_cols pf df (c # cs) =
     ebind (getitem df c) (\<lambda>vs. coerce_cols pf (setitem df c (to_numeric pf vs)) cs)"

fun floats_of_cols :: "cell list list \<Rightarrow> error + float64 list list" where
  "floats_of_cols [] = Inr []"
| "floats_of_cols (vs # rest) =
     ebind (as_floats vs) (\<lambda>xs. ebind (floats_of_cols rest) (\<lambda>r. Inr (xs # r)))"

text \<open>
  \<^verbatim>\<open>frame.max(axis=1, skipna=True)\<close> over the given columns of a frame of \<open>n\<close> rows. The values
  must compare with each other: a string among numbers raises. The result holds, for every
  row, the largest value of the row that is not missing, and a missing value for a row in which
  every value is missing.
\<close>

definition max_axis1 :: "nat \<Rightarrow> cell list list \<Rightarrow> error + cell list" where
  "max_axis1 n cs =
     ebind (floats_of_cols cs) (\<lambda>_. Inr (map (\<lambda>i. row_max (row_at cs i)) [0..<n]))"

definition make_gnomad_max_col ::
  "(string \<Rightarrow> float64) \<Rightarrow> frame \<Rightarrow> string list \<Rightarrow> string \<Rightarrow> error + (frame \<times> string option)" where
  "make_gnomad_max_col pf df candidates new_name =
     (if candidates = [] then Inr (df, None)
      else
        ebind (coerce_cols pf df candidates) (\<lambda>df1.
        ebind (select df1 candidates) (\<lambda>sub.
        ebind (max_axis1 (nrows df1) (map snd (cols sub))) (\<lambda>m.
        Inr (setitem df1 new_name m, Some new_name)))))"

section \<open>The left join\<close>

fun lookup_cols :: "frame \<Rightarrow> string list \<Rightarrow> error + cell list list" where
  "lookup_cols df [] = Inr []"
| "lookup_cols df (k # ks) =
     ebind (getitem df k) (\<lambda>vs. ebind (lookup_cols df ks) (\<lambda>r. Inr (vs # r)))"

text \<open>
  The row pairs of \<^verbatim>\<open>left.merge(right, how='left')\<close>, from the key tuples of the left rows and
  of the right rows: the left rows in their order, each with its matching right rows in their
  order, or once with no partner.
\<close>

definition merge_pairs :: "'a list \<Rightarrow> 'a list \<Rightarrow> (nat \<times> nat option) list" where
  "merge_pairs lk rk =
     concat (map (\<lambda>i.
       (let js = filter (\<lambda>j. rk ! j = lk ! i) [0..<length rk]
        in if js = [] then [(i, None)] else map (\<lambda>j. (i, Some j)) js))
       [0..<length lk])"

definition take_left :: "cell list \<Rightarrow> (nat \<times> nat option) list \<Rightarrow> cell list" where
  "take_left vs ps = map (\<lambda>p. vs ! fst p) ps"

definition take_right :: "cell list \<Rightarrow> (nat \<times> nat option) list \<Rightarrow> cell list" where
  "take_right ws ps = map (\<lambda>p. case snd p of None \<Rightarrow> Num NaN | Some j \<Rightarrow> ws ! j) ps"

definition key_rows :: "frame \<Rightarrow> cell list list \<Rightarrow> cell list list" where
  "key_rows df kcols = map (row_at kcols) [0..<nrows df]"

text \<open>
  The kind of a key column as \<^verbatim>\<open>read_csv\<close> types it: a column with a string in it is a column
  of objects, a column of numbers (missing values among them) is numeric. pandas refuses to
  join a key column of strings with a numeric one, unless one of the two tables has no row.
\<close>

definition is_text_col :: "cell list \<Rightarrow> bool" where
  "is_text_col vs = list_ex (\<lambda>c. case c of Str s \<Rightarrow> True | _ \<Rightarrow> False) vs"

definition is_number_col :: "cell list \<Rightarrow> bool" where
  "is_number_col vs = list_all (\<lambda>c. case c of Num x \<Rightarrow> True | _ \<Rightarrow> False) vs"

definition kinds_clash :: "cell list \<Rightarrow> cell list \<Rightarrow> bool" where
  "kinds_clash a b =
     (a \<noteq> [] \<and> b \<noteq> []
      \<and> ((is_text_col a \<and> is_number_col b) \<or> (is_number_col a \<and> is_text_col b)))"

text \<open>
  \<^verbatim>\<open>left.merge(right, on=keys, how='left')\<close>. A key that is no column raises \<^verbatim>\<open>KeyError\<close>, key
  columns of clashing kinds raise \<^verbatim>\<open>ValueError\<close>. A column of both frames that is not a key
  gets the suffixes \<^verbatim>\<open>_x\<close> and \<^verbatim>\<open>_y\<close>; the result has fresh row labels.
\<close>

definition merge_left :: "frame \<Rightarrow> frame \<Rightarrow> string list \<Rightarrow> error + frame" where
  "merge_left left right keys =
     (if \<not> distinct (names left) \<or> \<not> distinct (names right) then Inl DuplicateLabels
      else
        ebind (lookup_cols left keys) (\<lambda>lk.
        ebind (lookup_cols right keys) (\<lambda>rk.
        if list_ex (\<lambda>p. kinds_clash (fst p) (snd p)) (zip lk rk) then Inl ValueError
        else
        (let ps = merge_pairs (key_rows left lk) (key_rows right rk);
             overlap = (\<lambda>c. c \<notin> set keys \<and> c \<in> set (names left) \<and> c \<in> set (names right));
             lcols = map (\<lambda>p. (if overlap (fst p) then fst p @ ''_x'' else fst p,
                                take_left (snd p) ps)) (cols left);
             rcols = map (\<lambda>p. (if overlap (fst p) then fst p @ ''_y'' else fst p,
                                take_right (snd p) ps))
                       (filter (\<lambda>p. fst p \<notin> set keys) (cols right))
         in if \<not> distinct (map fst (lcols @ rcols)) then Inl MergeError
            else Inr \<lparr>index = [0..<length ps], cols = lcols @ rcols\<rparr>))))"

section \<open>The pipeline\<close>

datatype line =
    ReadingMultianno
  | VariantsBefore nat
  | UsingGnomad
  | GlobalAF "string list" "string option"
  | AfrAF "string list" "string option"
  | ReadingCohort
  | CohortVariants nat
  | WarningNoConsequence
  | VariantsAfter nat
  | WroteAnnotated
  | WrotePrioritised

record outputs =
  annotated :: frame
  prioritised :: frame
  stdout :: "line list"

text \<open>Lines 86 to 89: the first of the core columns that the annotation table lacks ends the run.\<close>

fun check_core :: "string list \<Rightarrow> string list \<Rightarrow> error + unit" where
  "check_core ns [] = Inr ()"
| "check_core ns (c # cs) =
     (if c \<notin> set ns
      then Inl (SystemExit (''Missing required column '' @ quote c @ '' in multianno file.''))
      else check_core ns cs)"

definition gnomad_all_candidates :: "string list \<Rightarrow> string list" where
  "gnomad_all_candidates ns = filter (\<lambda>c. startswith ''AF'' c \<and> \<not> str_in ''afr'' (lower c)) ns"

definition gnomad_afr_candidates :: "string list \<Rightarrow> string list" where
  "gnomad_afr_candidates ns = filter (\<lambda>c. str_in ''afr'' (lower c) \<and> startswith ''AF'' c) ns"

definition lof_terms :: "string list" where
  "lof_terms = [''frameshift_deletion'', ''frameshift_insertion'', ''frameshift_variant'',
                ''stopgain'', ''stoploss'', ''splicing'', ''splice_site'']"

definition missense_terms :: "string list" where
  "missense_terms = [''nonsynonymous SNV'', ''missense_variant'']"

definition synonymous_terms :: "string list" where
  "synonymous_terms = [''synonymous SNV'', ''synonymous_variant'']"

text \<open>Lines 126 to 152: the impact tier, and whether the warning was printed.\<close>

definition classify :: "frame \<Rightarrow> error + (frame \<times> line list)" where
  "classify merged =
     (if ''Func.refGene'' \<notin> set (names merged) \<or> ''ExonicFunc.refGene'' \<notin> set (names merged)
      then Inr (setitem merged ''impact_tier'' (replicate (nrows merged) (Str ''unknown'')),
                [WarningNoConsequence])
      else
        ebind (getitem merged ''ExonicFunc.refGene'') (\<lambda>ex.
        ebind (getitem merged ''Func.refGene'') (\<lambda>fn.
        ebind (str_contains fn ''splicing'') (\<lambda>spl.
        (let cond_lof = map2 (\<or>) (isin ex lof_terms) spl;
             cond_missense = isin ex missense_terms;
             cond_synonymous = isin ex synonymous_terms;
             m0 = setitem merged ''impact_tier'' (replicate (nrows merged) (Str ''other''));
             m1 = loc_set m0 cond_synonymous ''impact_tier'' (Str ''synonymous'');
             m2 = loc_set m1 cond_missense ''impact_tier'' (Str ''missense'');
             m3 = loc_set m2 cond_lof ''impact_tier'' (Str ''LoF'')
         in Inr (m3, []))))))"

text \<open>One step of lines 155 to 163: the mask so far, narrowed by one max-column if it exists.\<close>

definition freq_step :: "frame \<Rightarrow> bool list \<Rightarrow> string option \<Rightarrow> float64 \<Rightarrow> error + bool list" where
  "freq_step merged freq_mask g t =
     (case g of
        None \<Rightarrow> Inr freq_mask
      | Some c \<Rightarrow>
          ebind (getitem merged c) (\<lambda>vs.
          ebind (le_scalar vs t) (\<lambda>le.
          Inr (map2 (\<and>) freq_mask (map2 (\<or>) (map isna vs) le)))))"

text \<open>Lines 154 to 171: the mask of the rows to keep.\<close>

definition final_mask ::
  "frame \<Rightarrow> string option \<Rightarrow> string option \<Rightarrow> float64 \<Rightarrow> float64 \<Rightarrow> float64 \<Rightarrow> error + bool list" where
  "final_mask merged gnomad_all gnomad_afr max_gnomad_af max_gnomad_afr_af max_zim_af =
     ebind (freq_step merged (replicate (nrows merged) True) gnomad_all max_gnomad_af) (\<lambda>f1.
     ebind (freq_step merged f1 gnomad_afr max_gnomad_afr_af) (\<lambda>freq_mask.
     ebind (getitem merged ''zim_AF'') (\<lambda>z.
     ebind (le_scalar z max_zim_af) (\<lambda>zim_mask.
     ebind (getitem merged ''impact_tier'') (\<lambda>tier.
     (let impact_mask = isin tier [''LoF'', ''missense'']
      in Inr (map2 (\<and>) (map2 (\<and>) freq_mask zim_mask) impact_mask)))))))"

text \<open>One of lines 178 to 181: a flag for a max-column, if that column exists.\<close>

definition flag_step :: "frame \<Rightarrow> frame \<Rightarrow> string option \<Rightarrow> string \<Rightarrow> error + frame" where
  "flag_step merged filtered g flag =
     (case g of
        None \<Rightarrow> Inr filtered
      | Some c \<Rightarrow>
          ebind (getitem merged c) (\<lambda>vs.
          ebind (gt_scalar vs (Fin (1 / 100))) (\<lambda>gt.
          Inr (setitem_aligned filtered flag (index merged) (map Bool gt)))))"

text \<open>Lines 173 to 181: the filtered copy and its flags.\<close>

definition add_flags :: "frame \<Rightarrow> frame \<Rightarrow> string option \<Rightarrow> string option \<Rightarrow> error + frame" where
  "add_flags merged filtered gnomad_all gnomad_afr =
     ebind (getitem merged ''zim_AF'') (\<lambda>z.
     ebind (gt_scalar z (Fin (1 / 100))) (\<lambda>gt.
     (let f1 = setitem_aligned filtered ''flag_high_zim_af'' (index merged) (map Bool gt) in
      ebind (flag_step merged f1 gnomad_all ''flag_common_gnomad'') (\<lambda>f2.
      flag_step merged f2 gnomad_afr ''flag_common_gnomad_afr''))))"

text \<open>
  \<^verbatim>\<open>prioritise\<close>, on the two tables as read and the three thresholds. The result is the two
  tables handed to \<^verbatim>\<open>to_csv\<close> and the lines printed, or the error that ended the run before
  anything was written.
\<close>

definition prioritise ::
  "(string \<Rightarrow> float64) \<Rightarrow> frame \<Rightarrow> frame \<Rightarrow> float64 \<Rightarrow> float64 \<Rightarrow> float64 \<Rightarrow> error + outputs" where
  "prioritise pf ann zim_raw max_gnomad_af max_gnomad_afr_af max_zim_af =
     ebind (check_core (names ann) [''Chr'', ''Start'', ''End'', ''Ref'', ''Alt'']) (\<lambda>_.
     (let all_c = gnomad_all_candidates (names ann);
          afr_c = gnomad_afr_candidates (names ann) in
      ebind (make_gnomad_max_col pf ann all_c ''gnomad_AF_max'') (\<lambda>(ann1, gnomad_all).
      ebind (make_gnomad_max_col pf ann1 afr_c ''gnomad_AFR_AF_max'') (\<lambda>(ann2, gnomad_afr).
      ebind (load_zim_db pf zim_raw) (\<lambda>zim.
      ebind (merge_left ann2 zim [''Chr'', ''Start'', ''Ref'', ''Alt'']) (\<lambda>merged0.
      ebind (getitem merged0 ''zim_AF'') (\<lambda>z.
      (let merged1 = setitem merged0 ''zim_AF'' (fillna0 z) in
       ebind (classify merged1) (\<lambda>(merged, warn).
       ebind (final_mask merged gnomad_all gnomad_afr
                max_gnomad_af max_gnomad_afr_af max_zim_af) (\<lambda>fm.
       (let filtered = bool_index merged fm in
        ebind (add_flags merged filtered gnomad_all gnomad_afr) (\<lambda>flagged.
        Inr \<lparr>annotated = merged, prioritised = flagged,
             stdout = [ReadingMultianno, VariantsBefore (nrows ann), UsingGnomad,
                       GlobalAF all_c gnomad_all, AfrAF afr_c gnomad_afr,
                       ReadingCohort, CohortVariants (nrows zim)]
                      @ warn
                      @ [VariantsAfter (nrows filtered), WroteAnnotated,
                         WrotePrioritised]\<rparr>))))))))))))"

section \<open>Example inputs\<close>

text \<open>A reader of numbers that knows a handful of strings, for the concrete runs below.\<close>

definition ex_pf :: "string \<Rightarrow> float64" where
  "ex_pf s =
     (if s = ''0.02'' then Fin (1 / 50)
      else if s = ''0.001'' then Fin (1 / 1000)
      else if s = ''5'' then Fin 5
      else if s = ''0'' then Fin 0
      else NaN)"

text \<open>An annotation table without \<^verbatim>\<open>Start\<close>, and a cohort table with a frequency column.\<close>

definition ex_ann_no_start :: frame where
  "ex_ann_no_start =
     \<lparr>index = [0],
      cols = [(''Chr'', [Str ''chr1'']), (''Gene.refGene'', [Str ''BRCA2'']),
              (''Ref'', [Str ''A'']), (''Alt'', [Str ''T''])]\<rparr>"

definition ex_zim_direct :: frame where
  "ex_zim_direct =
     \<lparr>index = [0],
      cols = [(''chr'', [Str ''chr1'']), (''start'', [Num (Fin 100)]), (''ref'', [Str ''A'']),
              (''alt'', [Str ''T'']), (''zim_AF'', [Num (Fin (1 / 10))])]\<rparr>"

definition ex_missing_start_message :: string where
  "ex_missing_start_message =
     ''Missing required column '' @ [CHR 0x27] @ ''Start'' @ [CHR 0x27] @ '' in multianno file.''"

section \<open>Reading a result\<close>

text \<open>
  The definitions of this section are not part of the program: the theorems use them to speak
  about single cells and about what the specification calls a maximum.
\<close>

text \<open>The number of a numeric cell; a string counts as missing.\<close>

definition num_of :: "cell \<Rightarrow> float64" where
  "num_of c = (case cell_num c of None \<Rightarrow> NaN | Some x \<Rightarrow> x)"

text \<open>The cell of column \<open>c\<close> at row position \<open>i\<close>, if there is one.\<close>

definition cell_at :: "frame \<Rightarrow> string \<Rightarrow> nat \<Rightarrow> cell option" where
  "cell_at df c i =
     (case map_of (cols df) c of
        None \<Rightarrow> None
      | Some vs \<Rightarrow> if i < length vs then Some (vs ! i) else None)"

text \<open>
  The specification's row-wise maximum: \<open>m\<close> is the largest of the values of \<open>xs\<close> that are not
  missing, and missing when there is none.
\<close>

definition is_max_of_present :: "float64 list \<Rightarrow> float64 \<Rightarrow> bool" where
  "is_max_of_present xs m =
     (let ys = filter (\<lambda>x. x \<noteq> NaN) xs
      in if ys = [] then m = NaN else m \<in> set ys \<and> list_all (\<lambda>y. fle y m) ys)"

text \<open>
  The specification's coercion to numeric of one value: \<open>w\<close> is what the value \<open>v\<close> may become.
  A number stays, a string becomes the number it reads as (missing when it reads as none), a
  boolean stays or becomes the number it equals.
\<close>

definition coerced_from :: "(string \<Rightarrow> float64) \<Rightarrow> cell \<Rightarrow> cell \<Rightarrow> bool" where
  "coerced_from pf v w =
     (case v of
        Num x \<Rightarrow> w = Num x
      | Str s \<Rightarrow> w = Num (pf s)
      | Bool b \<Rightarrow> w = Bool b \<or> w = Num (Fin (if b then 1 else 0)))"

text \<open>The numbers that the candidate values of row \<open>i\<close> are after the coercion.\<close>

definition coerced_row :: "(string \<Rightarrow> float64) \<Rightarrow> frame \<Rightarrow> string list \<Rightarrow> nat \<Rightarrow> float64 list" where
  "coerced_row pf df candidates i =
     map (\<lambda>c. case cell_at df c i of None \<Rightarrow> NaN | Some v \<Rightarrow> num_of (coerce_object pf v)) candidates"

text \<open>
  A cohort table whose count and number are both boolean columns, and that has no frequency
  column to use instead.
\<close>

definition boolean_counts :: "frame \<Rightarrow> bool" where
  "boolean_counts df =
     (''zim_af'' \<notin> lower ` set (names df)
      \<and> (\<exists>c_ac\<in>set (names df). \<exists>c_an\<in>set (names df).
            lower c_ac = ''zim_ac'' \<and> lower c_an = ''zim_an''
          \<and> (case (getitem df c_ac, getitem df c_an) of
                (Inr a, Inr b) \<Rightarrow> is_bool_col a \<and> is_bool_col b
              | _ \<Rightarrow> False)))"



text \<open>
  The impact tier the specification gives a row, from its exonic-consequence cell \<open>e\<close> and its
  functional-region cell \<open>f\<close>: loss of function before missense before synonymous, else other.
\<close>

definition tier_spec :: "cell \<Rightarrow> cell \<Rightarrow> string" where
  "tier_spec e f =
     (if cell_isin e lof_terms \<or> cell_contains f ''splicing'' then ''LoF''
      else if cell_isin e missense_terms then ''missense''
      else if cell_isin e synonymous_terms then ''synonymous''
      else ''other'')"

text \<open>
  The three predicates of the specification on row \<open>i\<close> of the merged table: frequency (for the
  max-columns that were created), cohort and impact; and the comparison behind a debug flag.
\<close>

definition missing_or_le :: "cell option \<Rightarrow> float64 \<Rightarrow> bool" where
  "missing_or_le co t =
     (case co of
        None \<Rightarrow> False
      | Some c \<Rightarrow> isna c \<or> (case cell_num c of None \<Rightarrow> False | Some x \<Rightarrow> fle x t))"

definition frequency_pred :: "frame \<Rightarrow> bool \<Rightarrow> bool \<Rightarrow> float64 \<Rightarrow> float64 \<Rightarrow> nat \<Rightarrow> bool" where
  "frequency_pred df has_all has_afr t_all t_afr i =
     ((has_all \<longrightarrow> missing_or_le (cell_at df ''gnomad_AF_max'' i) t_all)
      \<and> (has_afr \<longrightarrow> missing_or_le (cell_at df ''gnomad_AFR_AF_max'' i) t_afr))"

definition cohort_pred :: "frame \<Rightarrow> float64 \<Rightarrow> nat \<Rightarrow> bool" where
  "cohort_pred df t i =
     (case cell_at df ''zim_AF'' i of
        None \<Rightarrow> False
      | Some c \<Rightarrow> (case cell_num c of None \<Rightarrow> False | Some x \<Rightarrow> fle x t))"

definition impact_pred :: "frame \<Rightarrow> nat \<Rightarrow> bool" where
  "impact_pred df i =
     (cell_at df ''impact_tier'' i = Some (Str ''LoF'')
      \<or> cell_at df ''impact_tier'' i = Some (Str ''missense''))"

definition cell_gt :: "cell option \<Rightarrow> float64 \<Rightarrow> bool" where
  "cell_gt co t =
     (case co of
        None \<Rightarrow> False
      | Some c \<Rightarrow> (case cell_num c of None \<Rightarrow> False | Some x \<Rightarrow> fgt x t))"

text \<open>
  The identity tuple (\<^verbatim>\<open>Chr\<close>, \<^verbatim>\<open>Start\<close>, \<^verbatim>\<open>Ref\<close>, \<^verbatim>\<open>Alt\<close>) of every row of a table, as the join
  compares them.
\<close>

definition key_tuples :: "frame \<Rightarrow> cell list list" where
  "key_tuples df =
     (case lookup_cols df [''Chr'', ''Start'', ''Ref'', ''Alt''] of
        Inl e \<Rightarrow> []
      | Inr kc \<Rightarrow> key_rows df kc)"

text \<open>Three candidate columns; the first row holds 0.001, a missing value and 0.02.\<close>

definition ex_af_frame :: frame where
  "ex_af_frame =
     \<lparr>index = [0, 1],
      cols = [(''AF'', [Num (Fin (1 / 1000)), Num NaN]),
              (''AF_exome'', [Str ''.'', Str ''unknown'']),
              (''AF_genome'', [Str ''0.02'', Num NaN])]\<rparr>"

text \<open>
  Two candidate columns, one of numbers and one of booleans; in the third row the number 0.25
  meets the boolean \<^verbatim>\<open>False\<close>.
\<close>

definition ex_af_seen :: frame where
  "ex_af_seen =
     \<lparr>index = [0, 1, 2],
      cols = [(''AF'', [Num (Fin (1 / 2)), Num NaN, Num (Fin (1 / 4))]),
              (''AF_seen'', [Bool True, Bool False, Bool False])]\<rparr>"

text \<open>
  Cohort tables: one without \<^verbatim>\<open>alt\<close>, one without any frequency, one with counts and numbers
  (the first record has the number zero), and one in which two columns are called
  \<^verbatim>\<open>Chr\<close> and \<^verbatim>\<open>chr\<close>.
\<close>

definition ex_zim_no_alt :: frame where
  "ex_zim_no_alt =
     \<lparr>index = [0],
      cols = [(''Chr'', [Str ''chr1'']), (''Start'', [Num (Fin 100)]), (''Ref'', [Str ''A'']),
              (''zim_AF'', [Num (Fin (1 / 10))])]\<rparr>"

definition ex_zim_no_freq :: frame where
  "ex_zim_no_freq =
     \<lparr>index = [0],
      cols = [(''Chr'', [Str ''chr1'']), (''Start'', [Num (Fin 100)]), (''Ref'', [Str ''A'']),
              (''Alt'', [Str ''T'']), (''zim_AC'', [Num (Fin 5)])]\<rparr>"

definition ex_zim_counts :: frame where
  "ex_zim_counts =
     \<lparr>index = [0, 1],
      cols = [(''CHR'', [Str ''chr1'', Str ''chr2'']), (''start'', [Num (Fin 100), Num (Fin 7)]),
              (''Ref'', [Str ''A'', Str ''C'']), (''ALT'', [Str ''T'', Str ''G'']),
              (''zim_AC'', [Num (Fin 5), Num (Fin 1)]), (''zim_AN'', [Num (Fin 0), Num (Fin 4)])]\<rparr>"

text \<open>A cohort table whose count and number columns hold nothing but \<^verbatim>\<open>True\<close> and \<^verbatim>\<open>False\<close>.\<close>

definition ex_zim_seen :: frame where
  "ex_zim_seen =
     \<lparr>index = [0, 1],
      cols = [(''Chr'', [Str ''chr1'', Str ''chr2'']), (''Start'', [Num (Fin 100), Num (Fin 7)]),
              (''Ref'', [Str ''A'', Str ''C'']), (''Alt'', [Str ''T'', Str ''G'']),
              (''zim_AC'', [Bool True, Bool False]), (''zim_AN'', [Bool True, Bool True])]\<rparr>"

definition ex_zim_two_chr :: frame where
  "ex_zim_two_chr =
     \<lparr>index = [0],
      cols = [(''Chr'', [Str ''chr1'']), (''chr'', [Num (Fin 1)]), (''Start'', [Num (Fin 100)]),
              (''Ref'', [Str ''A'']), (''Alt'', [Str ''T'']),
              (''zim_AF'', [Num (Fin (1 / 10))])]\<rparr>"

text \<open>
  An annotation table of five variants and a cohort table with a frequency column that knows
  the second and the third of them.
\<close>

definition ex_ann :: frame where
  "ex_ann =
     \<lparr>index = [0, 1, 2, 3, 4],
      cols = [(''Chr'', [Str ''chr1'', Str ''chr2'', Str ''chr3'', Str ''chr4'', Str ''chr5'']),
              (''Start'', [Num (Fin 100), Num (Fin 200), Num (Fin 300), Num (Fin 400), Num (Fin 500)]),
              (''End'', [Num (Fin 100), Num (Fin 200), Num (Fin 300), Num (Fin 400), Num (Fin 500)]),
              (''Ref'', [Str ''A'', Str ''C'', Str ''G'', Str ''T'', Str ''T'']),
              (''Alt'', [Str ''T'', Str ''G'', Str ''A'', Str ''C'', Str ''C'']),
              (''Func.refGene'', [Str ''exonic'', Str ''exonic'', Str ''exonic'', Str ''exonic'',
                                 Str ''ncRNA_splicing'']),
              (''ExonicFunc.refGene'', [Str ''stopgain'', Str ''nonsynonymous SNV'',
                                       Str ''nonsynonymous SNV'', Str ''synonymous SNV'', Str ''.'']),
              (''AF'', [Str ''0.001'', Str ''0.001'', Str ''0.02'', Str ''.'', Str ''.'']),
              (''AF_afr'', [Str ''.'', Str ''.'', Str ''.'', Str ''.'', Str ''.''])]\<rparr>"

definition ex_zim_freq :: frame where
  "ex_zim_freq =
     \<lparr>index = [0, 1],
      cols = [(''chr'', [Str ''chr2'', Str ''chr3'']), (''start'', [Num (Fin 200), Num (Fin 300)]),
              (''ref'', [Str ''C'', Str ''G'']), (''alt'', [Str ''G'', Str ''A'']),
              (''zim_AF'', [Num (Fin (1 / 10)), Num (Fin (1 / 100))])]\<rparr>"

text \<open>
  An annotation table of two variants that are both synonymous; the cohort table above knows
  the second one.
\<close>

definition ex_ann_synonymous :: frame where
  "ex_ann_synonymous =
     \<lparr>index = [0, 1],
      cols = [(''Chr'', [Str ''chr1'', Str ''chr2'']),
              (''Start'', [Num (Fin 100), Num (Fin 200)]),
              (''End'', [Num (Fin 100), Num (Fin 200)]),
              (''Ref'', [Str ''A'', Str ''C'']),
              (''Alt'', [Str ''T'', Str ''G'']),
              (''Func.refGene'', [Str ''exonic'', Str ''exonic'']),
              (''ExonicFunc.refGene'', [Str ''synonymous SNV'', Str ''synonymous SNV'']),
              (''AF'', [Str ''0.001'', Str ''.''])]\<rparr>"


text \<open>An annotation table of two variants without the column \<^verbatim>\<open>Func.refGene\<close>.\<close>

definition ex_ann_no_func :: frame where
  "ex_ann_no_func =
     \<lparr>index = [0, 1],
      cols = [(''Chr'', [Str ''chr1'', Str ''chr2'']),
              (''Start'', [Num (Fin 100), Num (Fin 200)]),
              (''End'', [Num (Fin 100), Num (Fin 200)]),
              (''Ref'', [Str ''A'', Str ''C'']),
              (''Alt'', [Str ''T'', Str ''G'']),
              (''ExonicFunc.refGene'', [Str ''stopgain'', Str ''nonsynonymous SNV'']),
              (''AF'', [Str ''0.001'', Str ''.''])]\<rparr>"

section \<open>Sequencing\<close>

lemma ebind_Inr_iff: "ebind m f = Inr y \<longleftrightarrow> (\<exists>x. m = Inr x \<and> f x = Inr y)"
  by (cases m) (simp_all add: ebind_def)

lemma ebind_Inl_iff: "ebind m f = Inl e \<longleftrightarrow> m = Inl e \<or> (\<exists>x. m = Inr x \<and> f x = Inl e)"
  by (cases m) (simp_all add: ebind_def)

lemma ebind_Inl [simp]: "ebind (Inl e) f = Inl e"
  by (simp add: ebind_def)

lemma ebind_Inr [simp]: "ebind (Inr x) f = f x"
  by (simp add: ebind_def)

section \<open>The core columns of the annotation table\<close>

lemma check_core_find:
  "check_core ns cs =
     (case find (\<lambda>c. c \<notin> set ns) cs of
        None \<Rightarrow> Inr ()
      | Some c \<Rightarrow> Inl (SystemExit (''Missing required column '' @ quote c @ '' in multianno file.'')))"
  by (induction cs) simp_all

lemma find_absent_Some: "\<not> set cs \<subseteq> A \<Longrightarrow> \<exists>c. find (\<lambda>c. c \<notin> A) cs = Some c"
  by (cases "find (\<lambda>c. c \<notin> A) cs") (auto simp: find_None_iff)

text \<open>
  Claim C6, as amended. When the annotation table lacks one of \<^verbatim>\<open>Chr\<close>, \<^verbatim>\<open>Start\<close>, \<^verbatim>\<open>End\<close>,
  \<^verbatim>\<open>Ref\<close>, \<^verbatim>\<open>Alt\<close>, the run ends with \<^verbatim>\<open>SystemExit\<close> and produces no output; the message names
  the first of these columns that is absent, in that order, and is otherwise fixed text: it
  does not list the columns that were found.
\<close>

theorem prioritise_missing_core_column:
  assumes "\<not> set [''Chr'', ''Start'', ''End'', ''Ref'', ''Alt''] \<subseteq> set (names ann)"
  shows "\<exists>c. find (\<lambda>c. c \<notin> set (names ann)) [''Chr'', ''Start'', ''End'', ''Ref'', ''Alt''] = Some c
           \<and> prioritise pf ann zim_raw max_gnomad_af max_gnomad_afr_af max_zim_af
               = Inl (SystemExit (''Missing required column '' @ quote c @ '' in multianno file.''))"
proof -
  obtain c where c: "find (\<lambda>c. c \<notin> set (names ann)) [''Chr'', ''Start'', ''End'', ''Ref'', ''Alt''] = Some c"
    using find_absent_Some [OF assms] by blast
  have "check_core (names ann) [''Chr'', ''Start'', ''End'', ''Ref'', ''Alt'']
          = Inl (SystemExit (''Missing required column '' @ quote c @ '' in multianno file.''))"
    unfolding check_core_find c by simp
  then have "prioritise pf ann zim_raw max_gnomad_af max_gnomad_afr_af max_zim_af
               = Inl (SystemExit (''Missing required column '' @ quote c @ '' in multianno file.''))"
    unfolding prioritise_def by simp
  with c show ?thesis by blast
qed

theorem prioritise_missing_core_column_witness:
  "\<not> set [''Chr'', ''Start'', ''End'', ''Ref'', ''Alt''] \<subseteq> set (names ex_ann_no_start)
   \<and> prioritise ex_pf ex_ann_no_start ex_zim_direct (Fin (1 / 100)) (Fin (1 / 100)) (Fin (1 / 20))
       = Inl (SystemExit ex_missing_start_message)"
proof -
  have h: "\<not> set [''Chr'', ''Start'', ''End'', ''Ref'', ''Alt''] \<subseteq> set (names ex_ann_no_start)"
    by (simp add: names_def ex_ann_no_start_def)
  have f: "find (\<lambda>c. c \<notin> set (names ex_ann_no_start)) [''Chr'', ''Start'', ''End'', ''Ref'', ''Alt'']
             = Some ''Start''"
    by (simp add: names_def ex_ann_no_start_def)
  show ?thesis
    using h prioritise_missing_core_column [OF h, of ex_pf ex_zim_direct "Fin (1 / 100)" "Fin (1 / 100)" "Fin (1 / 20)"]
    unfolding f by (simp add: ex_missing_start_message_def quote_def)
qed

text \<open>
  Claim C6 as stated says that the message lists the columns found in the annotation table.
  On a table with the columns \<^verbatim>\<open>Chr\<close>, \<^verbatim>\<open>Gene.refGene\<close>, \<^verbatim>\<open>Ref\<close>, \<^verbatim>\<open>Alt\<close> the message is the
  fixed text about \<^verbatim>\<open>Start\<close>, in which the column \<^verbatim>\<open>Gene.refGene\<close> does not occur.
\<close>

theorem missing_core_message_counterexample:
  "prioritise ex_pf ex_ann_no_start ex_zim_direct (Fin (1 / 100)) (Fin (1 / 100)) (Fin (1 / 20))
     = Inl (SystemExit ex_missing_start_message)
   \<and> ''Gene.refGene'' \<in> set (names ex_ann_no_start)
   \<and> \<not> str_in ''Gene.refGene'' ex_missing_start_message"
  by code_simp

section \<open>Floats\<close>

lemma fle_refl: "x \<noteq> NaN \<Longrightarrow> fle x x"
  by (cases x) simp_all

lemma fle_trans: "fle x y \<Longrightarrow> fle y z \<Longrightarrow> fle x z"
  by (cases x; cases y; cases z) simp_all

lemma fle_total: "x \<noteq> NaN \<Longrightarrow> y \<noteq> NaN \<Longrightarrow> fle x y \<or> fle y x"
  by (cases x; cases y) auto

lemma fle_not_NaN: "fle x y \<Longrightarrow> x \<noteq> NaN \<and> y \<noteq> NaN"
  by (cases x; cases y) simp_all

lemma fle_antisym: "fle x y \<Longrightarrow> fle y x \<Longrightarrow> x = y"
  by (cases x; cases y) simp_all

lemma is_max_step:
  "is_max_of_present ((if a = NaN then x else if x = NaN then a else if fle x a then a else x) # xs) m
   \<Longrightarrow> is_max_of_present (a # x # xs) m"
  unfolding is_max_of_present_def Let_def list_all_iff
  by (auto split: if_splits intro: fle_trans fle_refl dest: fle_total)

lemma isna_num_of: "cell_num c \<noteq> None \<Longrightarrow> isna c \<longleftrightarrow> num_of c = NaN"
  by (cases c) (simp_all add: isna_def num_of_def)

lemma cell_ge_num:
  "cell_num a \<noteq> None \<Longrightarrow> cell_num b \<noteq> None \<Longrightarrow> cell_ge a b = fle (num_of b) (num_of a)"
  by (auto simp: cell_ge_def num_of_def)

lemma num_of_cmax:
  assumes "cell_num a \<noteq> None" and "cell_num x \<noteq> None"
  shows "num_of (cmax_skipna a x)
           = (if num_of a = NaN then num_of x else if num_of x = NaN then num_of a
              else if fle (num_of x) (num_of a) then num_of a else num_of x)"
  using assms by (simp add: cmax_skipna_def isna_num_of cell_ge_num)

lemma cmax_cases: "cmax_skipna a x = a \<or> cmax_skipna a x = x"
  by (simp add: cmax_skipna_def)

lemma foldl_cmax:
  assumes "cell_num a \<noteq> None" and "list_all (\<lambda>c. cell_num c \<noteq> None) xs"
  shows "cell_num (foldl cmax_skipna a xs) \<noteq> None
       \<and> foldl cmax_skipna a xs \<in> set (a # xs)
       \<and> is_max_of_present (map num_of (a # xs)) (num_of (foldl cmax_skipna a xs))"
  using assms
proof (induction xs arbitrary: a)
  case Nil
  then show ?case by (simp add: is_max_of_present_def fle_refl)
next
  case (Cons x xs)
  from Cons.prems have x: "cell_num x \<noteq> None" and xs: "list_all (\<lambda>c. cell_num c \<noteq> None) xs"
    by simp_all
  have n: "cell_num (cmax_skipna a x) \<noteq> None"
    using cmax_cases [of a x] Cons.prems(1) x by auto
  from Cons.IH [OF n xs] have
    a: "cell_num (foldl cmax_skipna (cmax_skipna a x) xs) \<noteq> None"
    and b: "foldl cmax_skipna (cmax_skipna a x) xs \<in> set (cmax_skipna a x # xs)"
    and c: "is_max_of_present (map num_of (cmax_skipna a x # xs))
              (num_of (foldl cmax_skipna (cmax_skipna a x) xs))"
    by blast+
  from b cmax_cases [of a x] have b': "foldl cmax_skipna (cmax_skipna a x) xs \<in> set (a # x # xs)"
    by auto
  from c have "is_max_of_present (num_of a # num_of x # map num_of xs)
              (num_of (foldl cmax_skipna (cmax_skipna a x) xs))"
    unfolding list.map num_of_cmax [OF Cons.prems(1) x] by (rule is_max_step)
  with a b' show ?case by simp
qed

lemma row_max_spec:
  assumes "list_all (\<lambda>c. cell_num c \<noteq> None) r"
  shows "cell_num (row_max r) \<noteq> None"
    and "row_max r = Num NaN \<or> row_max r \<in> set r"
    and "is_max_of_present (map num_of r) (num_of (row_max r))"
proof -
  have "cell_num (Num NaN) \<noteq> None" by simp
  from foldl_cmax [OF this assms] have
    a: "cell_num (row_max r) \<noteq> None"
    and b: "row_max r \<in> set (Num NaN # r)"
    and c: "is_max_of_present (map num_of (Num NaN # r)) (num_of (row_max r))"
    unfolding row_max_def by blast+
  show "cell_num (row_max r) \<noteq> None" by (rule a)
  show "row_max r = Num NaN \<or> row_max r \<in> set r" using b by simp
  show "is_max_of_present (map num_of r) (num_of (row_max r))"
    using c by (simp add: is_max_of_present_def num_of_def)
qed

section \<open>Frames\<close>

lemma names_setitem:
  "names (setitem df c vs) = (if c \<in> set (names df) then names df else names df @ [c])"
  by (simp add: names_def setitem_def update_keys)

lemma index_setitem [simp]: "index (setitem df c vs) = index df"
  by (simp add: setitem_def)

lemma nrows_setitem [simp]: "nrows (setitem df c vs) = nrows df"
  by (simp add: nrows_def)

lemma map_of_setitem: "map_of (cols (setitem df c vs)) = (map_of (cols df))(c \<mapsto> vs)"
  by (simp add: setitem_def update_conv')

lemma getitem_setitem:
  "getitem (setitem df c vs) c' = (if c' = c then Inr vs else getitem df c')"
  by (simp add: getitem_def map_of_setitem)

lemma set_update_subset: "set (AList.update k v al) \<subseteq> insert (k, v) (set al)"
  by (induction al) auto

lemma wf_setitem: "wf_frame df \<Longrightarrow> length vs = nrows df \<Longrightarrow> wf_frame (setitem df c vs)"
  unfolding wf_frame_def list_all_iff nrows_setitem
  using set_update_subset [of c vs "cols df"] by (auto simp: setitem_def)

lemma distinct_names_setitem: "distinct (names df) \<Longrightarrow> distinct (names (setitem df c vs))"
  by (simp add: names_def setitem_def distinct_update)

lemma getitem_Inr_iff: "getitem df c = Inr vs \<longleftrightarrow> map_of (cols df) c = Some vs"
  by (simp add: getitem_def split: option.splits)

lemma getitem_in_names: "c \<in> set (names df) \<Longrightarrow> \<exists>vs. getitem df c = Inr vs"
  unfolding names_def getitem_def
  by (cases "map_of (cols df) c") (auto simp: map_of_eq_None_iff)

lemma getitem_names: "getitem df c = Inr vs \<Longrightarrow> c \<in> set (names df)"
  unfolding names_def getitem_Inr_iff by (metis map_of_eq_None_iff option.distinct(1) set_map)

lemma wf_getitem_length: "wf_frame df \<Longrightarrow> getitem df c = Inr vs \<Longrightarrow> length vs = nrows df"
  unfolding wf_frame_def list_all_iff getitem_Inr_iff by (fastforce dest: map_of_SomeD)

section \<open>The max-column builder, verified\<close>

lemma coerce_object_idem [simp]: "coerce_object pf (coerce_object pf x) = coerce_object pf x"
  by (cases x) simp_all

lemma cell_num_coerce_object [simp]: "cell_num (coerce_object pf x) \<noteq> None"
  by (cases x) simp_all

lemma cell_num_coerce_object_ex [simp]: "\<exists>y. cell_num (coerce_object pf x) = Some y"
  by (cases x) simp_all

lemma num_of_coerce_object: "cell_num x \<noteq> None \<Longrightarrow> num_of (coerce_object pf x) = num_of x"
  by (cases x) (simp_all add: num_of_def)

lemma is_bool_col_numeric: "is_bool_col vs \<Longrightarrow> list_all (\<lambda>c. cell_num c \<noteq> None) vs"
proof -
  assume "is_bool_col vs"
  then have b: "\<forall>c\<in>set vs. case c of Bool b \<Rightarrow> True | _ \<Rightarrow> False"
    by (simp add: is_bool_col_def list_all_iff)
  have "cell_num c \<noteq> None" if "c \<in> set vs" for c
    using b that by (cases c) auto
  then show ?thesis by (simp add: list_all_iff)
qed

lemma is_bool_col_coerced: "\<not> is_bool_col (map (coerce_object pf) vs)"
proof (cases vs)
  case Nil
  then show ?thesis by (simp add: is_bool_col_def)
next
  case (Cons v ws)
  then show ?thesis by (cases v) (simp_all add: is_bool_col_def)
qed

lemma is_bool_col_to_numeric [simp]: "is_bool_col (to_numeric pf vs) = is_bool_col vs"
  by (simp add: to_numeric_def is_bool_col_coerced)

lemma length_to_numeric [simp]: "length (to_numeric pf vs) = length vs"
  by (simp add: to_numeric_def)

lemma to_numeric_idem [simp]: "to_numeric pf (to_numeric pf vs) = to_numeric pf vs"
  by (simp add: to_numeric_def is_bool_col_coerced)

lemma to_numeric_numeric: "list_all (\<lambda>c. cell_num c \<noteq> None) (to_numeric pf vs)"
proof (cases "is_bool_col vs")
  case True
  with is_bool_col_numeric [OF True] show ?thesis by (simp add: to_numeric_def)
next
  case False
  then show ?thesis by (simp add: to_numeric_def list_all_iff)
qed

lemma num_of_to_numeric: "map num_of (to_numeric pf vs) = map (\<lambda>v. num_of (coerce_object pf v)) vs"
proof (cases "is_bool_col vs")
  case True
  from is_bool_col_numeric [OF this] show ?thesis
    using True by (simp add: to_numeric_def list_all_iff num_of_coerce_object)
next
  case False
  then show ?thesis by (simp add: to_numeric_def)
qed

lemma num_of_to_numeric_nth:
  "i < length vs \<Longrightarrow> num_of (to_numeric pf vs ! i) = num_of (coerce_object pf (vs ! i))"
  using arg_cong [OF num_of_to_numeric [of pf vs], of "\<lambda>xs. xs ! i"] by simp

lemma to_numeric_coerced: "list_all2 (coerced_from pf) vs (to_numeric pf vs)"
proof (cases "is_bool_col vs")
  case True
  then have "\<forall>v\<in>set vs. coerced_from pf v v"
    by (auto simp: is_bool_col_def list_all_iff coerced_from_def split: cell.splits)
  with True show ?thesis by (simp add: to_numeric_def list_all2_same)
next
  case False
  have "coerced_from pf v (coerce_object pf v)" for v
    by (cases v) (simp_all add: coerced_from_def)
  with False show ?thesis by (simp add: to_numeric_def list_all2_conv_all_nth)
qed

lemma coerce_cols_ok:
  "set cs \<subseteq> set (names df) \<Longrightarrow>
   \<exists>df'. coerce_cols pf df cs = Inr df' \<and> names df' = names df \<and> index df' = index df
     \<and> (\<forall>c. map_of (cols df') c =
            (if c \<in> set cs then map_option (to_numeric pf) (map_of (cols df) c)
             else map_of (cols df) c))"
proof (induction cs arbitrary: df)
  case Nil
  show ?case by simp
next
  case (Cons c cs)
  from Cons.prems obtain vs where vs: "getitem df c = Inr vs"
    using getitem_in_names [of c df] by auto
  let ?df1 = "setitem df c (to_numeric pf vs)"
  have n1: "names ?df1 = names df"
    using Cons.prems by (simp add: names_setitem)
  with Cons.prems have "set cs \<subseteq> set (names ?df1)" by simp
  from Cons.IH [OF this] obtain df' where
    r: "coerce_cols pf ?df1 cs = Inr df'" and n: "names df' = names ?df1"
    and i: "index df' = index ?df1"
    and m: "\<And>c'. map_of (cols df') c' =
            (if c' \<in> set cs then map_option (to_numeric pf) (map_of (cols ?df1) c')
             else map_of (cols ?df1) c')"
    by blast
  have v: "map_of (cols df) c = Some vs"
    using vs by (simp add: getitem_Inr_iff)
  have "coerce_cols pf df (c # cs) = Inr df'"
    using vs r by simp
  moreover have "names df' = names df" using n n1 by simp
  moreover have "index df' = index df" using i by simp
  moreover have "map_of (cols df') c' =
            (if c' \<in> set (c # cs) then map_option (to_numeric pf) (map_of (cols df) c')
             else map_of (cols df) c')" for c'
    unfolding m [of c'] map_of_setitem using v by simp
  ultimately show ?case by blast
qed

lemma filter_fst_distinct:
  "distinct (map fst cs) \<Longrightarrow> map_of cs l = Some v \<Longrightarrow> filter (\<lambda>p. fst p = l) cs = [(l, v)]"
proof (induction cs)
  case Nil
  then show ?case by simp
next
  case (Cons p cs)
  show ?case
  proof (cases "fst p = l")
    case True
    with Cons.prems have "l \<notin> fst ` set cs" by auto
    then have "filter (\<lambda>p. fst p = l) cs = []"
      by (auto simp: filter_empty_conv)
    with True Cons.prems show ?thesis by (cases p) auto
  next
    case False
    with Cons show ?thesis by (cases p) auto
  qed
qed

lemma select_cols_distinct:
  "distinct (map fst cs) \<Longrightarrow> set ls \<subseteq> fst ` set cs \<Longrightarrow>
   select_cols cs ls = Inr (map (\<lambda>l. (l, the (map_of cs l))) ls)"
proof (induction ls)
  case Nil
  show ?case by simp
next
  case (Cons l ls)
  from Cons.prems obtain v where v: "map_of cs l = Some v"
    by (cases "map_of cs l") (auto simp: map_of_eq_None_iff)
  have "filter (\<lambda>p. fst p = l) cs = [(l, v)]"
    using filter_fst_distinct [OF Cons.prems(1) v] .
  with Cons v show ?case by simp
qed

lemma those_cell_num:
  "those (map cell_num vs) =
     (if list_all (\<lambda>c. cell_num c \<noteq> None) vs then Some (map num_of vs) else None)"
  by (induction vs) (auto simp: num_of_def split: option.splits)

lemma as_floats_iff:
  "as_floats vs = Inr xs \<longleftrightarrow> list_all (\<lambda>c. cell_num c \<noteq> None) vs \<and> xs = map num_of vs"
  by (auto simp: as_floats_def those_cell_num)

lemma as_floats_length: "as_floats vs = Inr xs \<Longrightarrow> length xs = length vs"
  by (simp add: as_floats_iff)

lemma floats_of_cols_iff:
  "floats_of_cols cs = Inr fs \<longleftrightarrow>
     list_all (list_all (\<lambda>c. cell_num c \<noteq> None)) cs \<and> fs = map (map num_of) cs"
  by (induction cs arbitrary: fs) (auto simp: ebind_Inr_iff as_floats_iff)

lemma cell_at_getitem:
  "getitem df c = Inr vs \<Longrightarrow> i < length vs \<Longrightarrow> cell_at df c i = Some (vs ! i)"
  by (simp add: cell_at_def getitem_Inr_iff)

lemma all_missing_max:
  assumes "cell_num c \<noteq> None" and "is_max_of_present xs (num_of c)" and "\<forall>x\<in>set xs. x = NaN"
  shows "c = Num NaN"
proof -
  from assms(3) have "filter (\<lambda>x. x \<noteq> NaN) xs = []" by (simp add: filter_empty_conv)
  with assms(2) have "num_of c = NaN" by (simp add: is_max_of_present_def)
  with assms(1) show ?thesis by (cases c) (simp_all add: num_of_def)
qed

text \<open>
  The builder on candidates that are columns of a well-formed frame: the candidates are
  coerced, and the new column holds the maximum of every row of coerced candidates.
\<close>

lemma make_gnomad_max_col_ok:
  assumes wf: "wf_frame df" and d: "distinct (names df)"
    and sub: "set candidates \<subseteq> set (names df)" and ne: "candidates \<noteq> []"
  shows "\<exists>df1. coerce_cols pf df candidates = Inr df1 \<and> names df1 = names df \<and> index df1 = index df
      \<and> (\<forall>c. map_of (cols df1) c =
            (if c \<in> set candidates then map_option (to_numeric pf) (map_of (cols df) c)
             else map_of (cols df) c))
      \<and> make_gnomad_max_col pf df candidates new_name
          = Inr (setitem df1 new_name
                   (map (\<lambda>i. row_max
                           (map (\<lambda>c. to_numeric pf (the (map_of (cols df) c)) ! i) candidates))
                      [0..<nrows df]),
                 Some new_name)"
proof -
  from coerce_cols_ok [OF sub, of pf] obtain df1 where
    r: "coerce_cols pf df candidates = Inr df1" and n: "names df1 = names df"
    and i: "index df1 = index df"
    and m: "\<And>c. map_of (cols df1) c =
            (if c \<in> set candidates then map_option (to_numeric pf) (map_of (cols df) c)
             else map_of (cols df) c)"
    by blast
  have d1: "distinct (map fst (cols df1))" using d n by (simp add: names_def)
  have "fst ` set (cols df1) = set (names df1)" by (simp add: names_def)
  then have s1: "set candidates \<subseteq> fst ` set (cols df1)" using sub n by simp
  let ?sel = "map (\<lambda>l. (l, the (map_of (cols df1) l))) candidates"
  have sel: "select df1 candidates = Inr (df1\<lparr>cols := ?sel\<rparr>)"
    by (simp add: select_def select_cols_distinct [OF d1 s1])
  have col: "the (map_of (cols df1) c) = to_numeric pf (the (map_of (cols df) c))"
    if "c \<in> set candidates" for c
  proof -
    from that sub obtain vs where vs: "getitem df c = Inr vs"
      using getitem_in_names [of c df] by auto
    then have "map_of (cols df) c = Some vs" by (simp add: getitem_Inr_iff)
    then show ?thesis using m [of c] that by simp
  qed
  have num: "list_all (list_all (\<lambda>c. cell_num c \<noteq> None)) (map snd ?sel)"
    unfolding list_all_iff
  proof (intro ballI)
    fix xs x assume "xs \<in> set (map snd ?sel)" and x: "x \<in> set xs"
    then obtain c where c: "c \<in> set candidates" and xs: "xs = the (map_of (cols df1) c)"
      by auto
    from to_numeric_numeric [of pf "the (map_of (cols df) c)"] x xs col [OF c]
    show "cell_num x \<noteq> None" by (simp add: list_all_iff)
  qed
  have rows: "row_at (map snd ?sel) k
                = map (\<lambda>c. to_numeric pf (the (map_of (cols df) c)) ! k) candidates" for k
    unfolding row_at_def by (simp add: col)
  have mx: "max_axis1 (nrows df1) (map snd ?sel)
              = Inr (map (\<lambda>i. row_max
                           (map (\<lambda>c. to_numeric pf (the (map_of (cols df) c)) ! i) candidates))
                      [0..<nrows df])"
  proof -
    have "floats_of_cols (map snd ?sel) = Inr (map (map num_of) (map snd ?sel))"
      using num by (simp only: floats_of_cols_iff simp_thms)
    moreover have "nrows df1 = nrows df" using i by (simp add: nrows_def)
    ultimately show ?thesis
      unfolding max_axis1_def rows by simp
  qed
  have "make_gnomad_max_col pf df candidates new_name
          = Inr (setitem df1 new_name
                   (map (\<lambda>i. row_max
                           (map (\<lambda>c. to_numeric pf (the (map_of (cols df) c)) ! i) candidates))
                      [0..<nrows df]),
                 Some new_name)"
    unfolding make_gnomad_max_col_def using ne r sel mx by simp
  with r n i m show ?thesis by blast
qed

text \<open>
  Claim C3. On a frame whose columns are named apart, each with one cell per row, and for
  candidates that are columns of it: with no candidate the builder returns the frame as it is
  and no name. Otherwise it returns the new name and every candidate column coerced to numeric:
  a number stays, a string becomes the number it reads as or a missing value, a boolean stays
  a boolean or becomes the number it equals. The new column holds in every row a value that is
  a number or a boolean, never a string; it is the largest of that row's coerced candidate
  values that are not missing and it is one of them, or it is the missing value when all of
  them are missing.
\<close>

theorem make_gnomad_max_col_spec:
  assumes "wf_frame df" and "distinct (names df)" and "set candidates \<subseteq> set (names df)"
  shows "if candidates = [] then make_gnomad_max_col pf df candidates new_name = Inr (df, None)
         else (\<exists>df' m. make_gnomad_max_col pf df candidates new_name = Inr (df', Some new_name)
                \<and> index df' = index df
                \<and> names df' = (if new_name \<in> set (names df) then names df else names df @ [new_name])
                \<and> getitem df' new_name = Inr m \<and> length m = nrows df
                \<and> (\<forall>i<nrows df.
                       cell_num (m ! i) \<noteq> None
                     \<and> is_max_of_present (coerced_row pf df candidates i) (num_of (m ! i))
                     \<and> (m ! i = Num NaN
                          \<or> (\<exists>c\<in>set candidates. \<exists>vs. getitem df c = Inr vs
                                \<and> m ! i = to_numeric pf vs ! i))
                     \<and> ((\<forall>x\<in>set (coerced_row pf df candidates i). x = NaN)
                          \<longrightarrow> m ! i = Num NaN))
                \<and> (\<forall>c\<in>set candidates. c \<noteq> new_name \<longrightarrow>
                       (\<exists>vs. getitem df c = Inr vs
                          \<and> getitem df' c = Inr (to_numeric pf vs)
                          \<and> list_all2 (coerced_from pf) vs (to_numeric pf vs))))"
proof (cases "candidates = []")
  case True
  then show ?thesis by (simp add: make_gnomad_max_col_def)
next
  case False
  let ?row = "\<lambda>i. map (\<lambda>c. to_numeric pf (the (map_of (cols df) c)) ! i) candidates"
  let ?m = "map (\<lambda>i. row_max (?row i)) [0..<nrows df]"
  from make_gnomad_max_col_ok [OF assms False, of pf new_name] obtain df1 where
    n: "names df1 = names df" and i: "index df1 = index df"
    and m: "\<And>c. map_of (cols df1) c =
            (if c \<in> set candidates then map_option (to_numeric pf) (map_of (cols df) c)
             else map_of (cols df) c)"
    and r: "make_gnomad_max_col pf df candidates new_name = Inr (setitem df1 new_name ?m, Some new_name)"
    by blast
  let ?df' = "setitem df1 new_name ?m"
  have col: "\<exists>vs. getitem df c = Inr vs \<and> map_of (cols df) c = Some vs \<and> length vs = nrows df"
    if "c \<in> set candidates" for c
  proof -
    from that assms(3) obtain vs where vs: "getitem df c = Inr vs"
      using getitem_in_names [of c df] by auto
    with wf_getitem_length [OF assms(1) vs] show ?thesis by (simp add: getitem_Inr_iff)
  qed
  have a: "index ?df' = index df" using i by simp
  have b: "names ?df' = (if new_name \<in> set (names df) then names df else names df @ [new_name])"
    using n by (simp add: names_setitem)
  have c: "getitem ?df' new_name = Inr ?m" by (simp add: getitem_setitem)
  have d: "length ?m = nrows df" by simp
  have e: "cell_num (?m ! k) \<noteq> None
         \<and> is_max_of_present (coerced_row pf df candidates k) (num_of (?m ! k))
         \<and> (?m ! k = Num NaN
              \<or> (\<exists>c\<in>set candidates. \<exists>vs. getitem df c = Inr vs \<and> ?m ! k = to_numeric pf vs ! k))
         \<and> ((\<forall>x\<in>set (coerced_row pf df candidates k). x = NaN) \<longrightarrow> ?m ! k = Num NaN)"
    if k: "k < nrows df" for k
  proof -
    have mk: "?m ! k = row_max (?row k)" using k by simp
    have num: "list_all (\<lambda>x. cell_num x \<noteq> None) (?row k)"
      unfolding list_all_iff
    proof (intro ballI)
      fix x assume "x \<in> set (?row k)"
      then obtain c where c: "c \<in> set candidates"
        and x: "x = to_numeric pf (the (map_of (cols df) c)) ! k" by auto
      from col [OF c] obtain vs where v: "map_of (cols df) c = Some vs" and l: "length vs = nrows df"
        by blast
      from to_numeric_numeric [of pf vs] k l have "cell_num (to_numeric pf vs ! k) \<noteq> None"
        by (simp add: list_all_length)
      with x v show "cell_num x \<noteq> None" by simp
    qed
    have nums: "map num_of (?row k) = coerced_row pf df candidates k"
      unfolding coerced_row_def
    proof (simp, intro ballI)
      fix c assume "c \<in> set candidates"
      from col [OF this] obtain vs where v: "map_of (cols df) c = Some vs" and l: "length vs = nrows df"
        by blast
      show "num_of (to_numeric pf (the (map_of (cols df) c)) ! k)
              = (case cell_at df c k of None \<Rightarrow> NaN | Some v \<Rightarrow> num_of (coerce_object pf v))"
        using v l k by (simp add: cell_at_def num_of_to_numeric_nth)
    qed
    note rs = row_max_spec [OF num]
    have third: "?m ! k = Num NaN
              \<or> (\<exists>c\<in>set candidates. \<exists>vs. getitem df c = Inr vs \<and> ?m ! k = to_numeric pf vs ! k)"
    proof (cases "row_max (?row k) = Num NaN")
      case True
      with mk show ?thesis by simp
    next
      case False
      with rs(2) have "row_max (?row k) \<in> set (?row k)" by blast
      then obtain c where c: "c \<in> set candidates"
        and x: "row_max (?row k) = to_numeric pf (the (map_of (cols df) c)) ! k" by auto
      from col [OF c] obtain vs where g: "getitem df c = Inr vs" and v: "map_of (cols df) c = Some vs"
        by blast
      from x v mk have "?m ! k = to_numeric pf vs ! k" by simp
      with c g show ?thesis by blast
    qed
    have fourth: "(\<forall>x\<in>set (coerced_row pf df candidates k). x = NaN) \<longrightarrow> ?m ! k = Num NaN"
      using all_missing_max [OF rs(1) rs(3)] unfolding mk nums by blast
    from rs(1) rs(3) third fourth show ?thesis unfolding mk nums by blast
  qed
  have f: "\<forall>c\<in>set candidates. c \<noteq> new_name \<longrightarrow>
             (\<exists>vs. getitem df c = Inr vs \<and> getitem ?df' c = Inr (to_numeric pf vs)
                 \<and> list_all2 (coerced_from pf) vs (to_numeric pf vs))"
  proof (intro ballI impI)
    fix c assume c: "c \<in> set candidates" and ne: "c \<noteq> new_name"
    from col [OF c] obtain vs where vs: "getitem df c = Inr vs" by blast
    then have "map_of (cols df1) c = Some (to_numeric pf vs)"
      using m [of c] c by (simp add: getitem_Inr_iff)
    then have "getitem ?df' c = Inr (to_numeric pf vs)"
      using ne by (simp add: getitem_setitem getitem_Inr_iff)
    with vs to_numeric_coerced [of pf vs]
    show "\<exists>vs. getitem df c = Inr vs \<and> getitem ?df' c = Inr (to_numeric pf vs)
                 \<and> list_all2 (coerced_from pf) vs (to_numeric pf vs)"
      by blast
  qed
  from e have e': "\<forall>i<nrows df.
                       cell_num (?m ! i) \<noteq> None
                     \<and> is_max_of_present (coerced_row pf df candidates i) (num_of (?m ! i))
                     \<and> (?m ! i = Num NaN
                          \<or> (\<exists>c\<in>set candidates. \<exists>vs. getitem df c = Inr vs
                                \<and> ?m ! i = to_numeric pf vs ! i))
                     \<and> ((\<forall>x\<in>set (coerced_row pf df candidates i). x = NaN)
                          \<longrightarrow> ?m ! i = Num NaN)"
    by blast
  from r a b c d e' f False show ?thesis
    by (simp only: if_False) blast
qed

theorem make_gnomad_max_col_spec_witness:
  "wf_frame ex_af_frame \<and> distinct (names ex_af_frame)
   \<and> set [''AF'', ''AF_exome'', ''AF_genome''] \<subseteq> set (names ex_af_frame)
   \<and> getitem (fst (projr (make_gnomad_max_col ex_pf ex_af_frame
                 [''AF'', ''AF_exome'', ''AF_genome''] ''gnomad_AF_max''))) ''gnomad_AF_max''
       = Inr [Num (Fin (1 / 50)), Num NaN]
   \<and> (\<exists>df' m. make_gnomad_max_col ex_pf ex_af_frame [''AF'', ''AF_exome'', ''AF_genome'']
                 ''gnomad_AF_max'' = Inr (df', Some ''gnomad_AF_max'')
          \<and> getitem df' ''gnomad_AF_max'' = Inr m \<and> length m = nrows ex_af_frame)
   \<and> wf_frame ex_af_seen \<and> distinct (names ex_af_seen)
   \<and> set [''AF'', ''AF_seen''] \<subseteq> set (names ex_af_seen)
   \<and> make_gnomad_max_col ex_pf ex_af_seen [''AF'', ''AF_seen''] ''gnomad_AF_max''
       = Inr (\<lparr>index = [0, 1, 2],
               cols = [(''AF'', [Num (Fin (1 / 2)), Num NaN, Num (Fin (1 / 4))]),
                       (''AF_seen'', [Bool True, Bool False, Bool False]),
                       (''gnomad_AF_max'', [Bool True, Bool False, Num (Fin (1 / 4))])]\<rparr>,
              Some ''gnomad_AF_max'')
   \<and> (\<exists>df' m. make_gnomad_max_col ex_pf ex_af_seen [''AF'', ''AF_seen'']
                 ''gnomad_AF_max'' = Inr (df', Some ''gnomad_AF_max'')
          \<and> getitem df' ''gnomad_AF_max'' = Inr m \<and> length m = nrows ex_af_seen)"
proof -
  have h1: "wf_frame ex_af_frame" by code_simp
  have h2: "distinct (names ex_af_frame)" by code_simp
  have h3: "set [''AF'', ''AF_exome'', ''AF_genome''] \<subseteq> set (names ex_af_frame)" by code_simp
  have v: "getitem (fst (projr (make_gnomad_max_col ex_pf ex_af_frame
                 [''AF'', ''AF_exome'', ''AF_genome''] ''gnomad_AF_max''))) ''gnomad_AF_max''
       = Inr [Num (Fin (1 / 50)), Num NaN]" by code_simp
  have k1: "wf_frame ex_af_seen" by code_simp
  have k2: "distinct (names ex_af_seen)" by code_simp
  have k3: "set [''AF'', ''AF_seen''] \<subseteq> set (names ex_af_seen)" by code_simp
  have w: "make_gnomad_max_col ex_pf ex_af_seen [''AF'', ''AF_seen''] ''gnomad_AF_max''
       = Inr (\<lparr>index = [0, 1, 2],
               cols = [(''AF'', [Num (Fin (1 / 2)), Num NaN, Num (Fin (1 / 4))]),
                       (''AF_seen'', [Bool True, Bool False, Bool False]),
                       (''gnomad_AF_max'', [Bool True, Bool False, Num (Fin (1 / 4))])]\<rparr>,
              Some ''gnomad_AF_max'')" by code_simp
  have a: "\<exists>df' m. make_gnomad_max_col ex_pf ex_af_frame [''AF'', ''AF_exome'', ''AF_genome'']
                 ''gnomad_AF_max'' = Inr (df', Some ''gnomad_AF_max'')
          \<and> getitem df' ''gnomad_AF_max'' = Inr m \<and> length m = nrows ex_af_frame"
    using make_gnomad_max_col_spec [OF h1 h2 h3, of ex_pf "''gnomad_AF_max''"]
    by (simp only: list.simps if_False) blast
  have b: "\<exists>df' m. make_gnomad_max_col ex_pf ex_af_seen [''AF'', ''AF_seen'']
                 ''gnomad_AF_max'' = Inr (df', Some ''gnomad_AF_max'')
          \<and> getitem df' ''gnomad_AF_max'' = Inr m \<and> length m = nrows ex_af_seen"
    using make_gnomad_max_col_spec [OF k1 k2 k3, of ex_pf "''gnomad_AF_max''"]
    by (simp only: list.simps if_False) blast
  from h1 h2 h3 v a k1 k2 k3 w b show ?thesis by blast
qed

section \<open>The cohort table loader, verified\<close>

lemma col_dict_snoc: "col_dict (ns @ [c]) = (col_dict ns)(lower c \<mapsto> c)"
  by (simp add: col_dict_def)

lemma col_dict_Nil: "col_dict [] = Map.empty"
  by (simp add: col_dict_def)

lemma col_dict_None_iff: "col_dict ns k = None \<longleftrightarrow> k \<notin> lower ` set ns"
  by (induction ns rule: rev_induct) (auto simp: col_dict_snoc col_dict_Nil)

lemma col_dict_SomeD: "col_dict ns k = Some c \<Longrightarrow> c \<in> set ns \<and> lower c = k"
  by (induction ns rule: rev_induct) (auto simp: col_dict_snoc col_dict_Nil split: if_splits)

lemma lower_inj:
  "distinct (map lower ns) \<Longrightarrow> a \<in> set ns \<Longrightarrow> b \<in> set ns \<Longrightarrow> lower a = lower b \<Longrightarrow> a = b"
  by (auto simp: distinct_map dest: inj_onD)

lemma col_dict_distinct:
  assumes "distinct (map lower ns)" and "c \<in> set ns"
  shows "col_dict ns (lower c) = Some c"
proof -
  from assms(2) have "col_dict ns (lower c) \<noteq> None"
    by (simp add: col_dict_None_iff)
  then obtain c' where c': "col_dict ns (lower c) = Some c'" by blast
  from col_dict_SomeD [OF c'] lower_inj [OF assms(1) _ assms(2)] have "c' = c" by blast
  with c' show ?thesis by simp
qed

lemma check_required_find:
  "check_required d ns rs =
     (case find (\<lambda>r. d r = None) rs of
        None \<Rightarrow> Inr ()
      | Some r \<Rightarrow> Inl (SystemExit (''Zimbabwe DB file must contain a '' @ quote r
                  @ '' column (case-insensitive). Got: '' @ list_repr ns)))"
  by (induction rs) simp_all

lemma load_zim_db_missing_identity:
  assumes "\<not> set [''chr'', ''start'', ''ref'', ''alt''] \<subseteq> lower ` set (names df)"
  shows "\<exists>r. find (\<lambda>r. r \<notin> lower ` set (names df)) [''chr'', ''start'', ''ref'', ''alt''] = Some r
           \<and> load_zim_db pf df
               = Inl (SystemExit (''Zimbabwe DB file must contain a '' @ quote r
                  @ '' column (case-insensitive). Got: '' @ list_repr (names df)))"
proof -
  obtain r where r: "find (\<lambda>r. r \<notin> lower ` set (names df)) [''chr'', ''start'', ''ref'', ''alt''] = Some r"
    using find_absent_Some [OF assms] by blast
  have "(\<lambda>r. col_dict (names df) r = None) = (\<lambda>r. r \<notin> lower ` set (names df))"
    by (simp add: col_dict_None_iff fun_eq_iff)
  then have "check_required (col_dict (names df)) (names df) [''chr'', ''start'', ''ref'', ''alt'']
          = Inl (SystemExit (''Zimbabwe DB file must contain a '' @ quote r
                  @ '' column (case-insensitive). Got: '' @ list_repr (names df)))"
    unfolding check_required_find using r by simp
  then have "load_zim_db pf df
               = Inl (SystemExit (''Zimbabwe DB file must contain a '' @ quote r
                  @ '' column (case-insensitive). Got: '' @ list_repr (names df)))"
    unfolding load_zim_db_def Let_def by simp
  with r show ?thesis by blast
qed

lemma check_required_ok:
  "set rs \<subseteq> lower ` set ns \<Longrightarrow> check_required (col_dict ns) ns rs = Inr ()"
  by (induction rs) (auto simp: col_dict_None_iff)

lemma load_zim_db_missing_frequency:
  assumes ids: "set [''chr'', ''start'', ''ref'', ''alt''] \<subseteq> lower ` set (names df)"
    and af: "''zim_af'' \<notin> lower ` set (names df)"
    and pair: "\<not> (''zim_ac'' \<in> lower ` set (names df) \<and> ''zim_an'' \<in> lower ` set (names df))"
  shows "load_zim_db pf df
           = Inl (SystemExit ''Zimbabwe DB must have zim_AF or zim_AC + zim_AN (case-insensitive).'')"
proof -
  let ?d = "col_dict (names df)"
  have a: "?d ''zim_af'' = None" using af by (simp add: col_dict_None_iff)
  have b: "?d ''zim_ac'' = None \<or> ?d ''zim_an'' = None"
    using pair by (auto simp: col_dict_None_iff)
  have "ensure_zim_AF pf ?d df
          = Inl (SystemExit ''Zimbabwe DB must have zim_AF or zim_AC + zim_AN (case-insensitive).'')"
    unfolding ensure_zim_AF_def using a b by (auto split: option.splits)
  then show ?thesis
    unfolding load_zim_db_def Let_def check_required_ok [OF ids] by simp
qed

lemma lower_literals:
  "lower ''Chr'' = ''chr''" "lower ''Start'' = ''start''" "lower ''Ref'' = ''ref''"
  "lower ''Alt'' = ''alt''" "lower ''zim_AF'' = ''zim_af''"
  by code_simp+

lemma names_rename: "names (rename m df) = map (renamed m) (names df)"
  by (simp add: names_def rename_def comp_def)

lemma index_rename [simp]: "index (rename m df) = index df"
  by (simp add: rename_def)

lemma map_of_map_key_inj:
  "inj_on f (fst ` set cs) \<Longrightarrow> n \<in> fst ` set cs \<Longrightarrow>
   map_of (map (\<lambda>p. (f (fst p), snd p)) cs) (f n) = map_of cs n"
proof (induction cs)
  case Nil
  then show ?case by simp
next
  case (Cons p cs)
  show ?case
  proof (cases "fst p = n")
    case True
    then show ?thesis by (cases p) simp
  next
    case False
    with Cons.prems have n: "n \<in> fst ` set cs" by auto
    from Cons.prems(1) have inj: "inj_on f (fst ` set cs)" by (auto simp: inj_on_def)
    from False Cons.prems have "f (fst p) \<noteq> f n"
      by (auto simp: inj_on_def)
    with Cons.IH [OF inj n] False show ?thesis by (cases p) auto
  qed
qed

lemma rename_lower_preserving:
  assumes dl: "distinct (map lower (names df))"
    and lp: "\<And>n. n \<in> set (names df) \<Longrightarrow> lower (renamed m n) = lower n"
  shows "distinct (map lower (names (rename m df)))"
    and "n \<in> set (names df) \<Longrightarrow> map_of (cols (rename m df)) (renamed m n) = map_of (cols df) n"
proof -
  have "map lower (names (rename m df)) = map lower (names df)"
    using lp by (simp add: names_rename)
  with dl show "distinct (map lower (names (rename m df)))" by simp
  have inj: "inj_on (renamed m) (fst ` set (cols df))"
  proof (rule inj_onI)
    fix a b assume a: "a \<in> fst ` set (cols df)" and b: "b \<in> fst ` set (cols df)"
      and e: "renamed m a = renamed m b"
    have a': "a \<in> set (names df)" and b': "b \<in> set (names df)"
      using a b by (simp_all add: names_def)
    from e lp [OF a'] lp [OF b'] have "lower a = lower b" by simp
    with lower_inj [OF dl a' b'] show "a = b" by simp
  qed
  show "map_of (cols (rename m df)) (renamed m n) = map_of (cols df) n" if "n \<in> set (names df)"
  proof -
    from that have "n \<in> fst ` set (cols df)" by (simp add: names_def)
    from map_of_map_key_inj [OF inj this] show ?thesis
      by (simp add: rename_def)
  qed
qed

lemma frame_cols_update: "df\<lparr>cols := cs\<rparr> = \<lparr>index = index df, cols = cs\<rparr>"
  by (cases df) simp

lemma distinct_lower_names: "distinct (map lower ns) \<Longrightarrow> distinct ns"
  by (simp add: distinct_map)

lemma finish_shape:
  assumes dl: "distinct (map lower (names df1))"
    and chr: "getitem df1 c_chr = Inr v_chr" "lower c_chr = ''chr''"
    and start: "getitem df1 c_start = Inr v_start" "lower c_start = ''start''"
    and ref: "getitem df1 c_ref = Inr v_ref" "lower c_ref = ''ref''"
    and alt: "getitem df1 c_alt = Inr v_alt" "lower c_alt = ''alt''"
    and af: "getitem df1 ''zim_AF'' = Inr v_af"
  shows "select
           (rename (Map.empty(c_chr \<mapsto> ''Chr'', c_start \<mapsto> ''Start'',
                              c_ref \<mapsto> ''Ref'', c_alt \<mapsto> ''Alt'')) df1)
           [''Chr'', ''Start'', ''Ref'', ''Alt'', ''zim_AF'']
         = Inr \<lparr>index = index df1,
                cols = [(''Chr'', v_chr), (''Start'', v_start), (''Ref'', v_ref),
                        (''Alt'', v_alt), (''zim_AF'', v_af)]\<rparr>"
proof -
  let ?R = "Map.empty(c_chr \<mapsto> ''Chr'', c_start \<mapsto> ''Start'', c_ref \<mapsto> ''Ref'', c_alt \<mapsto> ''Alt'')"
  let ?df2 = "rename ?R df1"
  have ne: "c_chr \<noteq> c_start" "c_chr \<noteq> c_ref" "c_chr \<noteq> c_alt" "c_start \<noteq> c_ref"
    "c_start \<noteq> c_alt" "c_ref \<noteq> c_alt" "''zim_AF'' \<noteq> c_chr" "''zim_AF'' \<noteq> c_start"
    "''zim_AF'' \<noteq> c_ref" "''zim_AF'' \<noteq> c_alt"
    using chr(2) start(2) ref(2) alt(2) lower_literals(5) by auto
  have r: "renamed ?R c_chr = ''Chr''" "renamed ?R c_start = ''Start''"
    "renamed ?R c_ref = ''Ref''" "renamed ?R c_alt = ''Alt''" "renamed ?R ''zim_AF'' = ''zim_AF''"
    using ne by (simp_all add: renamed_def)
  have lp: "lower (renamed ?R n) = lower n" for n
    using chr(2) start(2) ref(2) alt(2) by (simp add: renamed_def lower_literals)
  have mem: "c_chr \<in> set (names df1)" "c_start \<in> set (names df1)" "c_ref \<in> set (names df1)"
    "c_alt \<in> set (names df1)" "''zim_AF'' \<in> set (names df1)"
    using chr(1) start(1) ref(1) alt(1) af by (auto dest: getitem_names)
  have d2: "distinct (map fst (cols ?df2))"
    using distinct_lower_names [OF rename_lower_preserving(1) [OF dl lp]] by (simp add: names_def)
  have m: "map_of (cols ?df2) ''Chr'' = Some v_chr" "map_of (cols ?df2) ''Start'' = Some v_start"
    "map_of (cols ?df2) ''Ref'' = Some v_ref" "map_of (cols ?df2) ''Alt'' = Some v_alt"
    "map_of (cols ?df2) ''zim_AF'' = Some v_af"
    using rename_lower_preserving(2) [OF dl lp mem(1)] rename_lower_preserving(2) [OF dl lp mem(2)]
      rename_lower_preserving(2) [OF dl lp mem(3)] rename_lower_preserving(2) [OF dl lp mem(4)]
      rename_lower_preserving(2) [OF dl lp mem(5)] chr(1) start(1) ref(1) alt(1) af
    unfolding r getitem_Inr_iff by simp_all
  have sub: "set [''Chr'', ''Start'', ''Ref'', ''Alt'', ''zim_AF''] \<subseteq> fst ` set (cols ?df2)"
    using m by (auto dest!: map_of_SomeD intro: rev_image_eqI)
  show ?thesis
    unfolding select_def select_cols_distinct [OF d2 sub]
    using m by (simp add: frame_cols_update)
qed

lemma dict_get_Some: "d k = Some v \<Longrightarrow> dict_get d k = Inr v"
  by (simp add: dict_get_def)

lemma col_dict_of_getitem:
  "distinct (map lower (names df)) \<Longrightarrow> getitem df c = Inr v \<Longrightarrow> lower c = k \<Longrightarrow>
   col_dict (names df) k = Some c"
  using col_dict_distinct [of "names df" c] getitem_names [of df c v] by auto

lemma col_dict_Some_mem: "col_dict ns k = Some c \<Longrightarrow> k \<in> lower ` set ns"
  using col_dict_None_iff [of ns k] by auto

lemma load_zim_db_unfold:
  assumes "col_dict (names df) ''chr'' = Some c_chr" "col_dict (names df) ''start'' = Some c_start"
    "col_dict (names df) ''ref'' = Some c_ref" "col_dict (names df) ''alt'' = Some c_alt"
    and "ensure_zim_AF pf (col_dict (names df)) df = Inr df1"
  shows "load_zim_db pf df =
     select
        (rename (Map.empty(c_chr \<mapsto> ''Chr'', c_start \<mapsto> ''Start'',
                           c_ref \<mapsto> ''Ref'', c_alt \<mapsto> ''Alt'')) df1)
        [''Chr'', ''Start'', ''Ref'', ''Alt'', ''zim_AF'']"
proof -
  have "set [''chr'', ''start'', ''ref'', ''alt''] \<subseteq> lower ` set (names df)"
    using assms(1-4) by (auto dest: col_dict_Some_mem)
  from check_required_ok [OF this] show ?thesis
    unfolding load_zim_db_def Let_def using assms by (simp add: dict_get_Some)
qed

lemma load_direct_shape:
  assumes dl: "distinct (map lower (names df))"
    and chr: "getitem df c_chr = Inr v_chr" "lower c_chr = ''chr''"
    and start: "getitem df c_start = Inr v_start" "lower c_start = ''start''"
    and ref: "getitem df c_ref = Inr v_ref" "lower c_ref = ''ref''"
    and alt: "getitem df c_alt = Inr v_alt" "lower c_alt = ''alt''"
    and af: "getitem df c_af = Inr v_af" "lower c_af = ''zim_af''"
  shows "load_zim_db pf df
         = Inr \<lparr>index = index df,
                cols = [(''Chr'', v_chr), (''Start'', v_start), (''Ref'', v_ref),
                        (''Alt'', v_alt), (''zim_AF'', v_af)]\<rparr>"
proof -
  let ?d = "col_dict (names df)"
  let ?R1 = "Map.empty(c_af \<mapsto> ''zim_AF'')"
  let ?df1 = "if c_af \<noteq> ''zim_AF'' then rename ?R1 df else df"
  have d: "?d ''chr'' = Some c_chr" "?d ''start'' = Some c_start" "?d ''ref'' = Some c_ref"
    "?d ''alt'' = Some c_alt" "?d ''zim_af'' = Some c_af"
    using col_dict_of_getitem [OF dl] chr start ref alt af by blast+
  have e: "ensure_zim_AF pf ?d df = Inr ?df1"
    using d(5) by (simp add: ensure_zim_AF_def)
  have ne: "c_chr \<noteq> c_af" "c_start \<noteq> c_af" "c_ref \<noteq> c_af" "c_alt \<noteq> c_af"
    using chr(2) start(2) ref(2) alt(2) af(2) by auto
  have mem: "c_chr \<in> set (names df)" "c_start \<in> set (names df)" "c_ref \<in> set (names df)"
    "c_alt \<in> set (names df)" "c_af \<in> set (names df)"
    using chr(1) start(1) ref(1) alt(1) af(1) by (auto dest: getitem_names)
  have lp: "lower (renamed ?R1 n) = lower n" for n
    using af(2) by (simp add: renamed_def lower_literals)
  have r: "renamed ?R1 c_chr = c_chr" "renamed ?R1 c_start = c_start" "renamed ?R1 c_ref = c_ref"
    "renamed ?R1 c_alt = c_alt" "renamed ?R1 c_af = ''zim_AF''"
    using ne by (simp_all add: renamed_def)
  have dl1: "distinct (map lower (names ?df1))"
    using dl rename_lower_preserving(1) [OF dl lp] by simp
  have gg: "getitem ?df1 c_chr = Inr v_chr \<and> getitem ?df1 c_start = Inr v_start \<and>
       getitem ?df1 c_ref = Inr v_ref \<and> getitem ?df1 c_alt = Inr v_alt \<and>
       getitem ?df1 ''zim_AF'' = Inr v_af"
  proof (cases "c_af = ''zim_AF''")
    case True
    with chr(1) start(1) ref(1) alt(1) af(1) show ?thesis by simp
  next
    case False
    with rename_lower_preserving(2) [OF dl lp mem(1)] rename_lower_preserving(2) [OF dl lp mem(2)]
      rename_lower_preserving(2) [OF dl lp mem(3)] rename_lower_preserving(2) [OF dl lp mem(4)]
      rename_lower_preserving(2) [OF dl lp mem(5)] chr(1) start(1) ref(1) alt(1) af(1)
    show ?thesis
      unfolding r getitem_Inr_iff by simp
  qed
  then have g: "getitem ?df1 c_chr = Inr v_chr" "getitem ?df1 c_start = Inr v_start"
    "getitem ?df1 c_ref = Inr v_ref" "getitem ?df1 c_alt = Inr v_alt"
    "getitem ?df1 ''zim_AF'' = Inr v_af"
    by blast+
  have i: "index ?df1 = index df" by simp
  show ?thesis
    unfolding load_zim_db_unfold [OF d(1-4) e]
    using finish_shape [OF dl1 g(1) chr(2) g(2) start(2) g(3) ref(2) g(4) alt(2) g(5)]
    unfolding i .
qed

lemma zip_map_both: "zip (map f xs) (map g ys) = map (\<lambda>p. (f (fst p), g (snd p))) (zip xs ys)"
  by (simp add: zip_map_map case_prod_unfold)

lemma div_series_to_numeric:
  "div_series (to_numeric pf xs) (to_numeric pf ys)
     = (if is_bool_col xs \<and> is_bool_col ys then Inl NotImplementedError
        else Inr (map2 (\<lambda>a b. Num (fdiv (num_of (coerce_object pf a)) (num_of (coerce_object pf b))))
                    xs ys))"
proof -
  have a: "as_floats (to_numeric pf zs) = Inr (map (\<lambda>z. num_of (coerce_object pf z)) zs)" for zs
    using to_numeric_numeric [of pf zs] by (simp add: as_floats_iff num_of_to_numeric)
  show ?thesis
    unfolding div_series_def a by (simp add: zip_map_both case_prod_unfold)
qed

lemma ensure_derived:
  assumes dl: "distinct (map lower (names df))"
    and noaf: "''zim_af'' \<notin> lower ` set (names df)"
    and ac: "getitem df c_ac = Inr v_ac" "lower c_ac = ''zim_ac''"
    and an: "getitem df c_an = Inr v_an" "lower c_an = ''zim_an''"
  shows "ensure_zim_AF pf (col_dict (names df)) df
     = (if is_bool_col v_ac \<and> is_bool_col v_an then Inl NotImplementedError
        else Inr (setitem (setitem (setitem df c_ac (to_numeric pf v_ac)) c_an (to_numeric pf v_an))
                    ''zim_AF''
                    (map2 (\<lambda>a b. Num (fdiv (num_of (coerce_object pf a)) (num_of (coerce_object pf b))))
                       v_ac v_an)))"
proof -
  let ?d = "col_dict (names df)"
  have d: "?d ''zim_ac'' = Some c_ac" "?d ''zim_an'' = Some c_an"
    using col_dict_of_getitem [OF dl] ac an by blast+
  have d0: "?d ''zim_af'' = None" using noaf by (simp add: col_dict_None_iff)
  have ne: "c_ac \<noteq> c_an" using ac(2) an(2) by auto
  show ?thesis
    unfolding ensure_zim_AF_def using d0 d ac(1) an(1) ne
    by (simp add: getitem_setitem div_series_to_numeric Let_def)
qed

lemma load_derived_shape:
  assumes dl: "distinct (map lower (names df))"
    and chr: "getitem df c_chr = Inr v_chr" "lower c_chr = ''chr''"
    and start: "getitem df c_start = Inr v_start" "lower c_start = ''start''"
    and ref: "getitem df c_ref = Inr v_ref" "lower c_ref = ''ref''"
    and alt: "getitem df c_alt = Inr v_alt" "lower c_alt = ''alt''"
    and noaf: "''zim_af'' \<notin> lower ` set (names df)"
    and ac: "getitem df c_ac = Inr v_ac" "lower c_ac = ''zim_ac''"
    and an: "getitem df c_an = Inr v_an" "lower c_an = ''zim_an''"
    and nb: "\<not> (is_bool_col v_ac \<and> is_bool_col v_an)"
  shows "load_zim_db pf df
         = Inr \<lparr>index = index df,
                cols = [(''Chr'', v_chr), (''Start'', v_start), (''Ref'', v_ref), (''Alt'', v_alt),
                        (''zim_AF'',
                         map2 (\<lambda>a b. Num (fdiv (num_of (coerce_object pf a)) (num_of (coerce_object pf b))))
                           v_ac v_an)]\<rparr>"
proof -
  let ?d = "col_dict (names df)"
  let ?af = "map2 (\<lambda>a b. Num (fdiv (num_of (coerce_object pf a)) (num_of (coerce_object pf b)))) v_ac v_an"
  let ?df1 = "setitem (setitem (setitem df c_ac (to_numeric pf v_ac))
                         c_an (to_numeric pf v_an)) ''zim_AF'' ?af"
  have d: "?d ''chr'' = Some c_chr" "?d ''start'' = Some c_start" "?d ''ref'' = Some c_ref"
    "?d ''alt'' = Some c_alt"
    using col_dict_of_getitem [OF dl] chr start ref alt by blast+
  have ne: "c_ac \<noteq> c_an" "c_chr \<noteq> c_ac" "c_chr \<noteq> c_an" "c_start \<noteq> c_ac" "c_start \<noteq> c_an"
    "c_ref \<noteq> c_ac" "c_ref \<noteq> c_an" "c_alt \<noteq> c_ac" "c_alt \<noteq> c_an"
    "c_chr \<noteq> ''zim_AF''" "c_start \<noteq> ''zim_AF''" "c_ref \<noteq> ''zim_AF''" "c_alt \<noteq> ''zim_AF''"
    using chr(2) start(2) ref(2) alt(2) ac(2) an(2) lower_literals(5) by auto
  have e: "ensure_zim_AF pf ?d df = Inr ?df1"
    unfolding ensure_derived [OF dl noaf ac an] using nb by simp
  have mem: "c_ac \<in> set (names df)" "c_an \<in> set (names df)"
    using ac(1) an(1) by (auto dest: getitem_names)
  have nz: "''zim_AF'' \<notin> set (names df)"
    using noaf lower_literals(5) by (metis image_eqI)
  have n1: "names ?df1 = names df @ [''zim_AF'']"
    using mem nz by (simp add: names_setitem)
  have dl1: "distinct (map lower (names ?df1))"
    using dl noaf by (simp add: n1 lower_literals)
  have g: "getitem ?df1 c_chr = Inr v_chr" "getitem ?df1 c_start = Inr v_start"
    "getitem ?df1 c_ref = Inr v_ref" "getitem ?df1 c_alt = Inr v_alt"
    "getitem ?df1 ''zim_AF'' = Inr ?af"
    using chr(1) start(1) ref(1) alt(1) ne by (simp_all add: getitem_setitem)
  have i: "index ?df1 = index df" by simp
  show ?thesis
    unfolding load_zim_db_unfold [OF d(1-4) e]
    using finish_shape [OF dl1 g(1) chr(2) g(2) start(2) g(3) ref(2) g(4) alt(2) g(5)]
    unfolding i .
qed

lemma load_derived_boolean:
  assumes dl: "distinct (map lower (names df))"
    and ids: "set [''chr'', ''start'', ''ref'', ''alt''] \<subseteq> lower ` set (names df)"
    and noaf: "''zim_af'' \<notin> lower ` set (names df)"
    and ac: "getitem df c_ac = Inr v_ac" "lower c_ac = ''zim_ac''"
    and an: "getitem df c_an = Inr v_an" "lower c_an = ''zim_an''"
    and bb: "is_bool_col v_ac \<and> is_bool_col v_an"
  shows "load_zim_db pf df = Inl NotImplementedError"
proof -
  have "ensure_zim_AF pf (col_dict (names df)) df = Inl NotImplementedError"
    unfolding ensure_derived [OF dl noaf ac an] using bb by simp
  then show ?thesis
    unfolding load_zim_db_def Let_def check_required_ok [OF ids] by simp
qed

lemma boolean_counts_iff:
  assumes dl: "distinct (map lower (names df))"
    and noaf: "''zim_af'' \<notin> lower ` set (names df)"
    and ac: "getitem df c_ac = Inr v_ac" "lower c_ac = ''zim_ac''"
    and an: "getitem df c_an = Inr v_an" "lower c_an = ''zim_an''"
  shows "boolean_counts df \<longleftrightarrow> is_bool_col v_ac \<and> is_bool_col v_an"
proof
  assume "boolean_counts df"
  then obtain a b where a: "a \<in> set (names df)" "lower a = ''zim_ac''"
    and b: "b \<in> set (names df)" "lower b = ''zim_an''"
    and c: "case (getitem df a, getitem df b) of
                (Inr x, Inr y) \<Rightarrow> is_bool_col x \<and> is_bool_col y | _ \<Rightarrow> False"
    unfolding boolean_counts_def by blast
  have "a = c_ac" using lower_inj [OF dl a(1) getitem_names [OF ac(1)]] a(2) ac(2) by simp
  moreover have "b = c_an" using lower_inj [OF dl b(1) getitem_names [OF an(1)]] b(2) an(2) by simp
  ultimately show "is_bool_col v_ac \<and> is_bool_col v_an" using c ac(1) an(1) by simp
next
  assume "is_bool_col v_ac \<and> is_bool_col v_an"
  then show "boolean_counts df"
    unfolding boolean_counts_def
    using noaf ac an getitem_names [OF ac(1)] getitem_names [OF an(1)] by force
qed

lemma lower_mem_getitem:
  assumes "k \<in> lower ` set (names df)"
  shows "\<exists>c v. getitem df c = Inr v \<and> lower c = k"
proof -
  from assms obtain c where c: "c \<in> set (names df)" and l: "lower c = k" by auto
  from getitem_in_names [OF c] obtain v where "getitem df c = Inr v" by blast
  with l show ?thesis by blast
qed

lemma load_zim_db_ok:
  assumes dl: "distinct (map lower (names df))"
    and ids: "set [''chr'', ''start'', ''ref'', ''alt''] \<subseteq> lower ` set (names df)"
    and fr: "''zim_af'' \<in> lower ` set (names df)
             \<or> (''zim_ac'' \<in> lower ` set (names df) \<and> ''zim_an'' \<in> lower ` set (names df))"
    and nb: "\<not> boolean_counts df"
  shows "\<exists>c_chr c_start c_ref c_alt v_chr v_start v_ref v_alt v_af.
           lower c_chr = ''chr'' \<and> getitem df c_chr = Inr v_chr
         \<and> lower c_start = ''start'' \<and> getitem df c_start = Inr v_start
         \<and> lower c_ref = ''ref'' \<and> getitem df c_ref = Inr v_ref
         \<and> lower c_alt = ''alt'' \<and> getitem df c_alt = Inr v_alt
         \<and> load_zim_db pf df
             = Inr \<lparr>index = index df,
                    cols = [(''Chr'', v_chr), (''Start'', v_start), (''Ref'', v_ref),
                            (''Alt'', v_alt), (''zim_AF'', v_af)]\<rparr>
         \<and> (if ''zim_af'' \<in> lower ` set (names df)
            then \<exists>c_af. lower c_af = ''zim_af'' \<and> getitem df c_af = Inr v_af
            else \<exists>c_ac c_an v_ac v_an.
                   lower c_ac = ''zim_ac'' \<and> getitem df c_ac = Inr v_ac
                 \<and> lower c_an = ''zim_an'' \<and> getitem df c_an = Inr v_an
                 \<and> v_af = map2 (\<lambda>a b. Num (fdiv (num_of (coerce_object pf a))
                                                     (num_of (coerce_object pf b)))) v_ac v_an)"
proof -
  from ids have m: "''chr'' \<in> lower ` set (names df)" "''start'' \<in> lower ` set (names df)"
    "''ref'' \<in> lower ` set (names df)" "''alt'' \<in> lower ` set (names df)" by simp_all
  from lower_mem_getitem [OF m(1)] obtain c_chr v_chr where
    chr: "getitem df c_chr = Inr v_chr" "lower c_chr = ''chr''" by blast
  from lower_mem_getitem [OF m(2)] obtain c_start v_start where
    start: "getitem df c_start = Inr v_start" "lower c_start = ''start''" by blast
  from lower_mem_getitem [OF m(3)] obtain c_ref v_ref where
    ref: "getitem df c_ref = Inr v_ref" "lower c_ref = ''ref''" by blast
  from lower_mem_getitem [OF m(4)] obtain c_alt v_alt where
    alt: "getitem df c_alt = Inr v_alt" "lower c_alt = ''alt''" by blast
  show ?thesis
  proof (cases "''zim_af'' \<in> lower ` set (names df)")
    case True
    from lower_mem_getitem [OF True] obtain c_af v_af where
      af: "getitem df c_af = Inr v_af" "lower c_af = ''zim_af''" by blast
    from load_direct_shape [OF dl chr start ref alt af, of pf] chr start ref alt af True
    show ?thesis by (simp only: if_True) blast
  next
    case False
    with fr have p: "''zim_ac'' \<in> lower ` set (names df)" "''zim_an'' \<in> lower ` set (names df)"
      by blast+
    from lower_mem_getitem [OF p(1)] obtain c_ac v_ac where
      ac: "getitem df c_ac = Inr v_ac" "lower c_ac = ''zim_ac''" by blast
    from lower_mem_getitem [OF p(2)] obtain c_an v_an where
      an: "getitem df c_an = Inr v_an" "lower c_an = ''zim_an''" by blast
    have nbb: "\<not> (is_bool_col v_ac \<and> is_bool_col v_an)"
      using nb boolean_counts_iff [OF dl False ac an] by simp
    from load_derived_shape [OF dl chr start ref alt False ac an nbb, of pf] chr start ref alt ac an False
    show ?thesis by (simp only: if_False) blast
  qed
qed

lemma load_zim_db_boolean:
  assumes dl: "distinct (map lower (names df))"
    and ids: "set [''chr'', ''start'', ''ref'', ''alt''] \<subseteq> lower ` set (names df)"
    and bc: "boolean_counts df"
  shows "load_zim_db pf df = Inl NotImplementedError"
proof -
  from bc obtain c_ac c_an where noaf: "''zim_af'' \<notin> lower ` set (names df)"
    and a: "c_ac \<in> set (names df)" "lower c_ac = ''zim_ac''"
    and b: "c_an \<in> set (names df)" "lower c_an = ''zim_an''"
    unfolding boolean_counts_def by blast
  from getitem_in_names [OF a(1)] obtain v_ac where ac: "getitem df c_ac = Inr v_ac" by blast
  from getitem_in_names [OF b(1)] obtain v_an where an: "getitem df c_an = Inr v_an" by blast
  from bc boolean_counts_iff [OF dl noaf ac a(2) an b(2)]
  have "is_bool_col v_ac \<and> is_bool_col v_an" by simp
  from load_derived_boolean [OF dl ids noaf ac a(2) an b(2) this] show ?thesis .
qed

text \<open>
  Claim C7, as amended. The loader ends the run with \<^verbatim>\<open>SystemExit\<close> whenever one of
  \<^verbatim>\<open>chr\<close>, \<^verbatim>\<open>start\<close>, \<^verbatim>\<open>ref\<close>, \<^verbatim>\<open>alt\<close> is not the lower-case form of a column, and whenever
  there is neither a \<^verbatim>\<open>zim_af\<close> column nor both \<^verbatim>\<open>zim_ac\<close> and \<^verbatim>\<open>zim_an\<close>. On a table whose
  column names stay different when put in lower case, every successful load returns exactly
  the five columns \<^verbatim>\<open>Chr\<close>, \<^verbatim>\<open>Start\<close>, \<^verbatim>\<open>Ref\<close>, \<^verbatim>\<open>Alt\<close>, \<^verbatim>\<open>zim_AF\<close>, the last one computed as
  count over number when there is no frequency column. On such a table the load succeeds in
  every other case but one: when the frequency has to be computed and count and number are
  both boolean columns, pandas refuses the division and the load ends with
  \<^verbatim>\<open>NotImplementedError\<close>.
\<close>

theorem load_zim_db_contract:
  "(\<not> set [''chr'', ''start'', ''ref'', ''alt''] \<subseteq> lower ` set (names df)
      \<longrightarrow> (\<exists>msg. load_zim_db pf df = Inl (SystemExit msg)))
   \<and> (''zim_af'' \<notin> lower ` set (names df)
        \<and> \<not> (''zim_ac'' \<in> lower ` set (names df) \<and> ''zim_an'' \<in> lower ` set (names df))
      \<longrightarrow> (\<exists>msg. load_zim_db pf df = Inl (SystemExit msg)))
   \<and> (distinct (map lower (names df))
        \<and> set [''chr'', ''start'', ''ref'', ''alt''] \<subseteq> lower ` set (names df)
        \<and> (''zim_af'' \<in> lower ` set (names df)
             \<or> (''zim_ac'' \<in> lower ` set (names df) \<and> ''zim_an'' \<in> lower ` set (names df)))
        \<and> \<not> boolean_counts df
      \<longrightarrow> (\<exists>out. load_zim_db pf df = Inr out))
   \<and> (distinct (map lower (names df))
        \<and> set [''chr'', ''start'', ''ref'', ''alt''] \<subseteq> lower ` set (names df)
        \<and> boolean_counts df
      \<longrightarrow> load_zim_db pf df = Inl NotImplementedError)
   \<and> (distinct (map lower (names df))
      \<longrightarrow> (\<forall>out. load_zim_db pf df = Inr out
             \<longrightarrow> names out = [''Chr'', ''Start'', ''Ref'', ''Alt'', ''zim_AF'']
               \<and> index out = index df
               \<and> (''zim_af'' \<notin> lower ` set (names df)
                    \<longrightarrow> (\<exists>c_ac c_an v_ac v_an.
                           lower c_ac = ''zim_ac'' \<and> getitem df c_ac = Inr v_ac
                         \<and> lower c_an = ''zim_an'' \<and> getitem df c_an = Inr v_an
                         \<and> getitem out ''zim_AF''
                             = Inr (map2 (\<lambda>a b. Num (fdiv (num_of (coerce_object pf a))
                                                            (num_of (coerce_object pf b))))
                                      v_ac v_an)))))"
proof (intro conjI impI allI)
  assume "\<not> set [''chr'', ''start'', ''ref'', ''alt''] \<subseteq> lower ` set (names df)"
  from load_zim_db_missing_identity [OF this, of pf]
  show "\<exists>msg. load_zim_db pf df = Inl (SystemExit msg)" by blast
next
  assume "''zim_af'' \<notin> lower ` set (names df)
        \<and> \<not> (''zim_ac'' \<in> lower ` set (names df) \<and> ''zim_an'' \<in> lower ` set (names df))"
  then have af: "''zim_af'' \<notin> lower ` set (names df)"
    and pair: "\<not> (''zim_ac'' \<in> lower ` set (names df) \<and> ''zim_an'' \<in> lower ` set (names df))"
    by blast+
  show "\<exists>msg. load_zim_db pf df = Inl (SystemExit msg)"
  proof (cases "set [''chr'', ''start'', ''ref'', ''alt''] \<subseteq> lower ` set (names df)")
    case True
    from load_zim_db_missing_frequency [OF True af pair, of pf] show ?thesis by blast
  next
    case False
    from load_zim_db_missing_identity [OF False, of pf] show ?thesis by blast
  qed
next
  assume "distinct (map lower (names df))
        \<and> set [''chr'', ''start'', ''ref'', ''alt''] \<subseteq> lower ` set (names df)
        \<and> (''zim_af'' \<in> lower ` set (names df)
             \<or> (''zim_ac'' \<in> lower ` set (names df) \<and> ''zim_an'' \<in> lower ` set (names df)))
        \<and> \<not> boolean_counts df"
  then show "\<exists>out. load_zim_db pf df = Inr out"
    using load_zim_db_ok [of df pf] by blast
next
  assume "distinct (map lower (names df))
        \<and> set [''chr'', ''start'', ''ref'', ''alt''] \<subseteq> lower ` set (names df)
        \<and> boolean_counts df"
  then show "load_zim_db pf df = Inl NotImplementedError"
    using load_zim_db_boolean [of df pf] by blast
next
  fix out
  assume dl: "distinct (map lower (names df))" and ok: "load_zim_db pf df = Inr out"
  have ids: "set [''chr'', ''start'', ''ref'', ''alt''] \<subseteq> lower ` set (names df)"
    using load_zim_db_missing_identity [of df pf] ok by (cases "set [''chr'', ''start'', ''ref'', ''alt''] \<subseteq> lower ` set (names df)") auto
  have fr: "''zim_af'' \<in> lower ` set (names df)
             \<or> (''zim_ac'' \<in> lower ` set (names df) \<and> ''zim_an'' \<in> lower ` set (names df))"
    using load_zim_db_missing_frequency [OF ids, of pf] ok by auto
  have nb: "\<not> boolean_counts df"
    using load_zim_db_boolean [OF dl ids, of pf] ok by auto
  from load_zim_db_ok [OF dl ids fr nb, of pf] obtain c_chr c_start c_ref c_alt v_chr v_start v_ref v_alt v_af
    where out: "load_zim_db pf df
             = Inr \<lparr>index = index df,
                    cols = [(''Chr'', v_chr), (''Start'', v_start), (''Ref'', v_ref),
                            (''Alt'', v_alt), (''zim_AF'', v_af)]\<rparr>"
      and src: "if ''zim_af'' \<in> lower ` set (names df)
            then \<exists>c_af. lower c_af = ''zim_af'' \<and> getitem df c_af = Inr v_af
            else \<exists>c_ac c_an v_ac v_an.
                   lower c_ac = ''zim_ac'' \<and> getitem df c_ac = Inr v_ac
                 \<and> lower c_an = ''zim_an'' \<and> getitem df c_an = Inr v_an
                 \<and> v_af = map2 (\<lambda>a b. Num (fdiv (num_of (coerce_object pf a))
                                                     (num_of (coerce_object pf b)))) v_ac v_an"
    by blast
  from out ok have o: "out = \<lparr>index = index df,
                    cols = [(''Chr'', v_chr), (''Start'', v_start), (''Ref'', v_ref),
                            (''Alt'', v_alt), (''zim_AF'', v_af)]\<rparr>" by simp
  show "names out = [''Chr'', ''Start'', ''Ref'', ''Alt'', ''zim_AF'']"
    by (simp add: o names_def)
  show "index out = index df" by (simp add: o)
  assume "''zim_af'' \<notin> lower ` set (names df)"
  with src have "\<exists>c_ac c_an v_ac v_an.
                   lower c_ac = ''zim_ac'' \<and> getitem df c_ac = Inr v_ac
                 \<and> lower c_an = ''zim_an'' \<and> getitem df c_an = Inr v_an
                 \<and> v_af = map2 (\<lambda>a b. Num (fdiv (num_of (coerce_object pf a))
                                                     (num_of (coerce_object pf b)))) v_ac v_an"
    by simp
  moreover have "getitem out ''zim_AF'' = Inr v_af" by (simp add: o getitem_def)
  ultimately show "\<exists>c_ac c_an v_ac v_an.
                           lower c_ac = ''zim_ac'' \<and> getitem df c_ac = Inr v_ac
                         \<and> lower c_an = ''zim_an'' \<and> getitem df c_an = Inr v_an
                         \<and> getitem out ''zim_AF''
                             = Inr (map2 (\<lambda>a b. Num (fdiv (num_of (coerce_object pf a))
                                                            (num_of (coerce_object pf b))))
                                      v_ac v_an)"
    by auto
qed

theorem load_zim_db_contract_witness:
  "\<not> set [''chr'', ''start'', ''ref'', ''alt''] \<subseteq> lower ` set (names ex_zim_no_alt)
   \<and> (\<exists>msg. load_zim_db ex_pf ex_zim_no_alt = Inl (SystemExit msg))
   \<and> ''zim_af'' \<notin> lower ` set (names ex_zim_no_freq)
   \<and> \<not> (''zim_ac'' \<in> lower ` set (names ex_zim_no_freq)
         \<and> ''zim_an'' \<in> lower ` set (names ex_zim_no_freq))
   \<and> (\<exists>msg. load_zim_db ex_pf ex_zim_no_freq = Inl (SystemExit msg))
   \<and> distinct (map lower (names ex_zim_counts))
   \<and> set [''chr'', ''start'', ''ref'', ''alt''] \<subseteq> lower ` set (names ex_zim_counts)
   \<and> ''zim_ac'' \<in> lower ` set (names ex_zim_counts)
   \<and> ''zim_an'' \<in> lower ` set (names ex_zim_counts)
   \<and> ''zim_af'' \<notin> lower ` set (names ex_zim_counts)
   \<and> \<not> boolean_counts ex_zim_counts
   \<and> load_zim_db ex_pf ex_zim_counts
       = Inr \<lparr>index = [0, 1],
              cols = [(''Chr'', [Str ''chr1'', Str ''chr2'']), (''Start'', [Num (Fin 100), Num (Fin 7)]),
                      (''Ref'', [Str ''A'', Str ''C'']), (''Alt'', [Str ''T'', Str ''G'']),
                      (''zim_AF'', [Num PosInf, Num (Fin (1 / 4))])]\<rparr>
   \<and> names (projr (load_zim_db ex_pf ex_zim_counts)) = [''Chr'', ''Start'', ''Ref'', ''Alt'', ''zim_AF'']
   \<and> distinct (map lower (names ex_zim_seen))
   \<and> set [''chr'', ''start'', ''ref'', ''alt''] \<subseteq> lower ` set (names ex_zim_seen)
   \<and> boolean_counts ex_zim_seen
   \<and> load_zim_db ex_pf ex_zim_seen = Inl NotImplementedError"
proof -
  have a: "\<not> set [''chr'', ''start'', ''ref'', ''alt''] \<subseteq> lower ` set (names ex_zim_no_alt)"
    by code_simp
  have b: "''zim_af'' \<notin> lower ` set (names ex_zim_no_freq)
     \<and> \<not> (''zim_ac'' \<in> lower ` set (names ex_zim_no_freq)
         \<and> ''zim_an'' \<in> lower ` set (names ex_zim_no_freq))"
    by code_simp
  have c: "distinct (map lower (names ex_zim_counts))" by code_simp
  have d: "set [''chr'', ''start'', ''ref'', ''alt''] \<subseteq> lower ` set (names ex_zim_counts)
     \<and> ''zim_ac'' \<in> lower ` set (names ex_zim_counts)
     \<and> ''zim_an'' \<in> lower ` set (names ex_zim_counts)
     \<and> ''zim_af'' \<notin> lower ` set (names ex_zim_counts)"
    by code_simp
  have d': "\<not> boolean_counts ex_zim_counts" by code_simp
  have e: "load_zim_db ex_pf ex_zim_counts
       = Inr \<lparr>index = [0, 1],
              cols = [(''Chr'', [Str ''chr1'', Str ''chr2'']), (''Start'', [Num (Fin 100), Num (Fin 7)]),
                      (''Ref'', [Str ''A'', Str ''C'']), (''Alt'', [Str ''T'', Str ''G'']),
                      (''zim_AF'', [Num PosInf, Num (Fin (1 / 4))])]\<rparr>"
    by code_simp
  have f: "load_zim_db ex_pf ex_zim_counts = Inr (projr (load_zim_db ex_pf ex_zim_counts))"
    unfolding e by simp
  have s1: "distinct (map lower (names ex_zim_seen))" by code_simp
  have s2: "set [''chr'', ''start'', ''ref'', ''alt''] \<subseteq> lower ` set (names ex_zim_seen)"
    by code_simp
  have s3: "boolean_counts ex_zim_seen" by code_simp
  note t1 = load_zim_db_contract [of ex_zim_no_alt ex_pf]
  note t2 = load_zim_db_contract [of ex_zim_no_freq ex_pf]
  note t3 = load_zim_db_contract [of ex_zim_counts ex_pf]
  note t4 = load_zim_db_contract [of ex_zim_seen ex_pf]
  have g: "\<exists>msg. load_zim_db ex_pf ex_zim_no_alt = Inl (SystemExit msg)"
    using t1 a by blast
  have h: "\<exists>msg. load_zim_db ex_pf ex_zim_no_freq = Inl (SystemExit msg)"
    using t2 b by blast
  have i: "names (projr (load_zim_db ex_pf ex_zim_counts)) = [''Chr'', ''Start'', ''Ref'', ''Alt'', ''zim_AF'']"
    using t3 c f by blast
  have j: "load_zim_db ex_pf ex_zim_seen = Inl NotImplementedError"
    using t4 s1 s2 s3 by blast
  from a b c d d' e g h i s1 s2 s3 j show ?thesis by blast
qed

text \<open>
  Claim C7 as stated promises five columns on every successful load. A table with the columns
  \<^verbatim>\<open>Chr\<close> and \<^verbatim>\<open>chr\<close> loads successfully: \<^verbatim>\<open>chr\<close>, the later of the two, is renamed to
  \<^verbatim>\<open>Chr\<close>, and selecting \<^verbatim>\<open>Chr\<close> then returns both columns, six in all.
\<close>

theorem load_zim_db_six_columns_counterexample:
  "load_zim_db ex_pf ex_zim_two_chr
     = Inr \<lparr>index = [0],
            cols = [(''Chr'', [Str ''chr1'']), (''Chr'', [Num (Fin 1)]), (''Start'', [Num (Fin 100)]),
                    (''Ref'', [Str ''A'']), (''Alt'', [Str ''T'']),
                    (''zim_AF'', [Num (Fin (1 / 10))])]\<rparr>
   \<and> length (names (projr (load_zim_db ex_pf ex_zim_two_chr))) = 6"
  by code_simp

section \<open>The left join and the impact tier, verified\<close>

lemma prioritise_Inr_iff:
  "prioritise pf ann zim_raw t1 t2 t3 = Inr out \<longleftrightarrow>
   (\<exists>ann1 g_all ann2 g_afr zim merged0 z merged warn fm flagged.
      check_core (names ann) [''Chr'', ''Start'', ''End'', ''Ref'', ''Alt''] = Inr ()
    \<and> make_gnomad_max_col pf ann (gnomad_all_candidates (names ann)) ''gnomad_AF_max''
        = Inr (ann1, g_all)
    \<and> make_gnomad_max_col pf ann1 (gnomad_afr_candidates (names ann)) ''gnomad_AFR_AF_max''
        = Inr (ann2, g_afr)
    \<and> load_zim_db pf zim_raw = Inr zim
    \<and> merge_left ann2 zim [''Chr'', ''Start'', ''Ref'', ''Alt''] = Inr merged0
    \<and> getitem merged0 ''zim_AF'' = Inr z
    \<and> classify (setitem merged0 ''zim_AF'' (fillna0 z)) = Inr (merged, warn)
    \<and> final_mask merged g_all g_afr t1 t2 t3 = Inr fm
    \<and> add_flags merged (bool_index merged fm) g_all g_afr = Inr flagged
    \<and> out = \<lparr>annotated = merged, prioritised = flagged,
              stdout = [ReadingMultianno, VariantsBefore (nrows ann), UsingGnomad,
                        GlobalAF (gnomad_all_candidates (names ann)) g_all,
                        AfrAF (gnomad_afr_candidates (names ann)) g_afr,
                        ReadingCohort, CohortVariants (nrows zim)]
                       @ warn
                       @ [VariantsAfter (nrows (bool_index merged fm)), WroteAnnotated,
                          WrotePrioritised]\<rparr>)"
  by (auto simp: prioritise_def Let_def ebind_Inr_iff simp del: check_core.simps)


lemma merge_left_Inr:
  assumes "merge_left l r keys = Inr m"
  shows "distinct (names l) \<and> distinct (names r) \<and>
    (\<exists>lk rk. lookup_cols l keys = Inr lk \<and> lookup_cols r keys = Inr rk \<and>
       m = \<lparr>index = [0..<length (merge_pairs (key_rows l lk) (key_rows r rk))],
            cols = map (\<lambda>p. (if fst p \<notin> set keys \<and> fst p \<in> set (names l) \<and> fst p \<in> set (names r)
                                then fst p @ ''_x'' else fst p,
                                take_left (snd p) (merge_pairs (key_rows l lk) (key_rows r rk))))
                     (cols l)
                 @ map (\<lambda>p. (if fst p \<notin> set keys \<and> fst p \<in> set (names l) \<and> fst p \<in> set (names r)
                                then fst p @ ''_y'' else fst p,
                                take_right (snd p) (merge_pairs (key_rows l lk) (key_rows r rk))))
                     (filter (\<lambda>p. fst p \<notin> set keys) (cols r))\<rparr>)"
  using assms unfolding merge_left_def Let_def
  by (auto simp: ebind_Inr_iff split: if_splits)

lemma names_five_cols:
  assumes "names r = [a, b, c, d, e]"
  shows "\<exists>va vb vc vd ve. cols r = [(a, va), (b, vb), (c, vc), (d, vd), (e, ve)]"
proof -
  from assms have "map fst (cols r) = [a, b, c, d, e]" by (simp add: names_def)
  then show ?thesis by (auto simp: map_eq_Cons_conv)
qed

lemma merge_left_five:
  assumes m: "merge_left l r [''Chr'', ''Start'', ''Ref'', ''Alt''] = Inr m"
    and nr: "names r = [''Chr'', ''Start'', ''Ref'', ''Alt'', ''zim_AF'']"
    and z: "getitem m ''zim_AF'' = Inr z"
  shows "\<exists>lk rk zaf. lookup_cols l [''Chr'', ''Start'', ''Ref'', ''Alt''] = Inr lk
     \<and> lookup_cols r [''Chr'', ''Start'', ''Ref'', ''Alt''] = Inr rk
     \<and> getitem r ''zim_AF'' = Inr zaf
     \<and> ''zim_AF'' \<notin> set (names l) \<and> distinct (names l)
     \<and> m = \<lparr>index = [0..<length (merge_pairs (key_rows l lk) (key_rows r rk))],
            cols = map (\<lambda>p. (fst p, take_left (snd p) (merge_pairs (key_rows l lk) (key_rows r rk))))
                     (cols l)
                   @ [(''zim_AF'', take_right zaf (merge_pairs (key_rows l lk) (key_rows r rk)))]\<rparr>
     \<and> z = take_right zaf (merge_pairs (key_rows l lk) (key_rows r rk))"
proof -
  let ?keys = "[''Chr'', ''Start'', ''Ref'', ''Alt'']"
  let ?ov = "\<lambda>c. c \<notin> set ?keys \<and> c \<in> set (names l) \<and> c \<in> set (names r)"
  from merge_left_Inr [OF m] obtain lk rk where
    dl: "distinct (names l)" and lk: "lookup_cols l ?keys = Inr lk"
    and rk: "lookup_cols r ?keys = Inr rk"
    and me: "m = \<lparr>index = [0..<length (merge_pairs (key_rows l lk) (key_rows r rk))],
            cols = map (\<lambda>p. (if ?ov (fst p) then fst p @ ''_x'' else fst p,
                                take_left (snd p) (merge_pairs (key_rows l lk) (key_rows r rk))))
                     (cols l)
                 @ map (\<lambda>p. (if ?ov (fst p) then fst p @ ''_y'' else fst p,
                                take_right (snd p) (merge_pairs (key_rows l lk) (key_rows r rk))))
                     (filter (\<lambda>p. fst p \<notin> set ?keys) (cols r))\<rparr>"
    by blast
  let ?ps = "merge_pairs (key_rows l lk) (key_rows r rk)"
  from names_five_cols [OF nr] obtain va vb vc vd zaf where
    cr: "cols r = [(''Chr'', va), (''Start'', vb), (''Ref'', vc), (''Alt'', vd), (''zim_AF'', zaf)]"
    by blast
  have zaf: "getitem r ''zim_AF'' = Inr zaf" by (simp add: getitem_def cr)
  have ov: "?ov c \<longleftrightarrow> c = ''zim_AF'' \<and> ''zim_AF'' \<in> set (names l)" for c
    unfolding nr by auto
  define sx where "sx = (\<lambda>c. if ?ov c then c @ ''_x'' else c)"
  have nm: "names m = map sx (names l) @ [if ?ov ''zim_AF'' then ''zim_AF_y'' else ''zim_AF'']"
    unfolding me names_def cr sx_def by (simp add: comp_def)
  have notin: "''zim_AF'' \<notin> set (names l)"
  proof
    assume a: "''zim_AF'' \<in> set (names l)"
    then have o: "?ov ''zim_AF''" using ov [of "''zim_AF''"] by blast
    have "(if ?ov ''zim_AF'' then ''zim_AF_y'' else ''zim_AF'') = ''zim_AF_y''"
      using o by (rule if_P)
    with nm have nm2: "names m = map sx (names l) @ [''zim_AF_y'']" by (simp only:)
    from z have "''zim_AF'' \<in> set (names m)" by (rule getitem_names)
    then have "''zim_AF'' \<in> set (map sx (names l)) \<or> ''zim_AF'' = ''zim_AF_y''"
      unfolding nm2 by simp
    then have "''zim_AF'' \<in> sx ` set (names l)" by simp
    then obtain c where c: "''zim_AF'' = sx c" by blast
    show False
    proof (cases "?ov c")
      case True
      then have "c = ''zim_AF''" using ov [of c] by blast
      with c True show False by (simp add: sx_def)
    next
      case False
      with c have "c = ''zim_AF''" by (simp add: sx_def)
      with False o show False by blast
    qed
  qed
  have nov: "\<not> ?ov c" for c using ov [of c] notin by blast
  have L: "map (\<lambda>p. (if ?ov (fst p) then fst p @ ''_x'' else fst p, take_left (snd p) ?ps)) (cols l)
             = map (\<lambda>p. (fst p, take_left (snd p) ?ps)) (cols l)"
    by (simp only: nov if_False)
  have R: "map (\<lambda>p. (if ?ov (fst p) then fst p @ ''_y'' else fst p, take_right (snd p) ?ps))
               (filter (\<lambda>p. fst p \<notin> set ?keys) (cols r))
             = [(''zim_AF'', take_right zaf ?ps)]"
    by (simp only: nov if_False) (simp add: cr)
  have me': "m = \<lparr>index = [0..<length ?ps],
            cols = map (\<lambda>p. (fst p, take_left (snd p) ?ps)) (cols l)
                   @ [(''zim_AF'', take_right zaf ?ps)]\<rparr>"
    using me unfolding L R .
  have "''zim_AF'' \<notin> fst ` set (map (\<lambda>p. (fst p, take_left (snd p) ?ps)) (cols l))"
    using notin by (auto simp: names_def image_iff)
  then have "map_of (map (\<lambda>p. (fst p, take_left (snd p) ?ps)) (cols l)) ''zim_AF'' = None"
    by (simp add: map_of_eq_None_iff)
  then have "getitem m ''zim_AF'' = Inr (take_right zaf ?ps)"
    unfolding me' getitem_def by (simp add: map_add_def)
  with z have "z = take_right zaf ?ps" by simp
  with lk rk zaf notin dl me' show ?thesis by blast
qed

lemma all_same_distinct:
  "distinct xs \<Longrightarrow> \<forall>x\<in>set xs. x = l \<Longrightarrow> xs \<noteq> [] \<Longrightarrow> xs = [l]"
  by (cases xs; cases "tl xs") auto

lemma filter_names_single:
  assumes "l \<in> set (map fst cs)" and "distinct (map fst (filter (\<lambda>p. fst p = l) cs))"
  shows "map fst (filter (\<lambda>p. fst p = l) cs) = [l]"
proof (rule all_same_distinct [OF assms(2)])
  show "\<forall>x\<in>set (map fst (filter (\<lambda>p. fst p = l) cs)). x = l" by auto
  from assms(1) show "map fst (filter (\<lambda>p. fst p = l) cs) \<noteq> []"
    by (auto simp: filter_empty_conv)
qed

lemma select_cols_names:
  "select_cols cs ls = Inr r \<Longrightarrow> distinct (map fst r) \<Longrightarrow> map fst r = ls"
proof (induction ls arbitrary: r)
  case Nil
  then show ?case by simp
next
  case (Cons l ls)
  from Cons.prems(1) obtain r' where l: "l \<in> set (map fst cs)"
    and r': "select_cols cs ls = Inr r'" and r: "r = filter (\<lambda>p. fst p = l) cs @ r'"
    by (auto simp: ebind_Inr_iff split: if_splits)
  from Cons.prems(2) r have d1: "distinct (map fst (filter (\<lambda>p. fst p = l) cs))"
    and d2: "distinct (map fst r')" by simp_all
  from filter_names_single [OF l d1] Cons.IH [OF r' d2] r show ?case by simp
qed

lemma load_zim_db_names:
  assumes "load_zim_db pf raw = Inr zim" and "distinct (names zim)"
  shows "names zim = [''Chr'', ''Start'', ''Ref'', ''Alt'', ''zim_AF'']"
proof -
  from assms(1) obtain df2 where "select df2 [''Chr'', ''Start'', ''Ref'', ''Alt'', ''zim_AF''] = Inr zim"
    unfolding load_zim_db_def Let_def by (auto simp: ebind_Inr_iff)
  then obtain cs where s: "select_cols (cols df2) [''Chr'', ''Start'', ''Ref'', ''Alt'', ''zim_AF''] = Inr cs"
    and z: "zim = df2\<lparr>cols := cs\<rparr>"
    unfolding select_def by (auto simp: ebind_Inr_iff)
  from assms(2) z have "distinct (map fst cs)" by (simp add: names_def)
  from select_cols_names [OF s this] z show ?thesis by (simp add: names_def)
qed

lemma coerce_cols_Inr:
  "coerce_cols pf df cs = Inr df' \<Longrightarrow>
   names df' = names df \<and> index df' = index df
   \<and> (\<forall>c. c \<notin> set cs \<longrightarrow> map_of (cols df') c = map_of (cols df) c)"
proof (induction cs arbitrary: df)
  case Nil
  then show ?case by simp
next
  case (Cons c cs)
  from Cons.prems obtain vs where vs: "getitem df c = Inr vs"
    and r: "coerce_cols pf (setitem df c (to_numeric pf vs)) cs = Inr df'"
    by (auto simp: ebind_Inr_iff)
  from getitem_names [OF vs] have "names (setitem df c (to_numeric pf vs)) = names df"
    by (simp add: names_setitem)
  with Cons.IH [OF r] show ?case by (simp add: map_of_setitem)
qed

lemma select_index: "select df ls = Inr sub \<Longrightarrow> index sub = index df"
  by (auto simp: select_def ebind_Inr_iff)

lemma make_gnomad_max_col_Inr:
  assumes "make_gnomad_max_col pf df cs new = Inr (df', g)"
  shows "g = (if cs = [] then None else Some new)"
    and "index df' = index df"
    and "names df' = (if cs = [] \<or> new \<in> set (names df) then names df else names df @ [new])"
    and "c \<notin> set cs \<Longrightarrow> c \<noteq> new \<Longrightarrow> map_of (cols df') c = map_of (cols df) c"
proof -
  have "g = (if cs = [] then None else Some new)
    \<and> index df' = index df
    \<and> names df' = (if cs = [] \<or> new \<in> set (names df) then names df else names df @ [new])
    \<and> (c \<notin> set cs \<longrightarrow> c \<noteq> new \<longrightarrow> map_of (cols df') c = map_of (cols df) c)"
  proof (cases "cs = []")
    case True
    with assms show ?thesis by (simp add: make_gnomad_max_col_def)
  next
    case False
    with assms obtain df1 m where c: "coerce_cols pf df cs = Inr df1"
      and d: "df' = setitem df1 new m" and g: "g = Some new"
      unfolding make_gnomad_max_col_def by (auto simp: ebind_Inr_iff)
    from coerce_cols_Inr [OF c] False d g show ?thesis
      by (simp add: names_setitem map_of_setitem)
  qed
  then show "g = (if cs = [] then None else Some new)"
    and "index df' = index df"
    and "names df' = (if cs = [] \<or> new \<in> set (names df) then names df else names df @ [new])"
    and "c \<notin> set cs \<Longrightarrow> c \<noteq> new \<Longrightarrow> map_of (cols df') c = map_of (cols df) c"
    by blast+
qed

lemma setitem_setitem [simp]: "setitem (setitem df c a) c b = setitem df c b"
  by (simp add: setitem_def)

lemma loc_set_setitem:
  "loc_set (setitem df c vs) bs c v = setitem df c (map2 (\<lambda>b x. if b then v else x) bs vs)"
  by (simp add: loc_set_def map_of_setitem)

lemma classify_unknown:
  "''Func.refGene'' \<notin> set (names m) \<or> ''ExonicFunc.refGene'' \<notin> set (names m) \<Longrightarrow>
   classify m = Inr (setitem m ''impact_tier'' (replicate (nrows m) (Str ''unknown'')),
                     [WarningNoConsequence])"
  by (auto simp: classify_def)

lemma tier_chain:
  assumes "length ex = n" and "length fn = n"
  shows "map2 (\<lambda>b x. if b then Str ''LoF'' else x)
           (map2 (\<or>) (isin ex lof_terms) (map (\<lambda>c. cell_contains c ''splicing'') fn))
           (map2 (\<lambda>b x. if b then Str ''missense'' else x) (isin ex missense_terms)
              (map2 (\<lambda>b x. if b then Str ''synonymous'' else x) (isin ex synonymous_terms)
                 (replicate n (Str ''other''))))
         = map2 (\<lambda>e f. Str (tier_spec e f)) ex fn"
  using assms by (intro nth_equalityI) (simp_all add: isin_def tier_spec_def)

lemma classify_known:
  assumes wf: "wf_frame m"
    and fn: "''Func.refGene'' \<in> set (names m)" and ex: "''ExonicFunc.refGene'' \<in> set (names m)"
    and c: "classify m = Inr (m', w)"
  shows "\<exists>exv fnv. getitem m ''ExonicFunc.refGene'' = Inr exv \<and> getitem m ''Func.refGene'' = Inr fnv
           \<and> length exv = nrows m \<and> length fnv = nrows m \<and> w = []
           \<and> m' = setitem m ''impact_tier'' (map2 (\<lambda>e f. Str (tier_spec e f)) exv fnv)"
proof -
  from c fn ex obtain exv fnv spl where e: "getitem m ''ExonicFunc.refGene'' = Inr exv"
    and f: "getitem m ''Func.refGene'' = Inr fnv"
    and s: "str_contains fnv ''splicing'' = Inr spl"
    and m': "m' = loc_set (loc_set (loc_set
                (setitem m ''impact_tier'' (replicate (nrows m) (Str ''other'')))
                (isin exv synonymous_terms) ''impact_tier'' (Str ''synonymous''))
                (isin exv missense_terms) ''impact_tier'' (Str ''missense''))
                (map2 (\<or>) (isin exv lof_terms) spl) ''impact_tier'' (Str ''LoF'')"
    and w: "w = []"
    unfolding classify_def Let_def by (auto simp: ebind_Inr_iff)
  from s have spl: "spl = map (\<lambda>c. cell_contains c ''splicing'') fnv"
    by (auto simp: str_contains_def split: if_splits)
  have le: "length exv = nrows m" and lf: "length fnv = nrows m"
    using wf_getitem_length [OF wf] e f by blast+
  have "m' = setitem m ''impact_tier'' (map2 (\<lambda>e f. Str (tier_spec e f)) exv fnv)"
    unfolding m' loc_set_setitem spl tier_chain [OF le lf] ..
  with e f le lf w show ?thesis by blast
qed

lemma wf_merge_left: "merge_left l r keys = Inr m \<Longrightarrow> wf_frame m \<and> index m = [0..<nrows m]"
  by (drule merge_left_Inr)
     (auto simp: wf_frame_def list_all_iff nrows_def take_left_def take_right_def)

lemma classify_frame:
  assumes wf: "wf_frame m" and c: "classify m = Inr (m', w)"
  shows "\<exists>tier. m' = setitem m ''impact_tier'' tier \<and> length tier = nrows m"
proof (cases "''Func.refGene'' \<in> set (names m) \<and> ''ExonicFunc.refGene'' \<in> set (names m)")
  case True
  with classify_known [OF wf _ _ c] show ?thesis by auto
next
  case False
  then have "''Func.refGene'' \<notin> set (names m) \<or> ''ExonicFunc.refGene'' \<notin> set (names m)" by blast
  from classify_unknown [OF this] c show ?thesis by auto
qed

section \<open>The filter and the flags, verified\<close>

lemma cell_at_wf:
  "wf_frame df \<Longrightarrow> getitem df c = Inr vs \<Longrightarrow> i < nrows df \<Longrightarrow> cell_at df c i = Some (vs ! i)"
  using wf_getitem_length [of df c vs] by (simp add: cell_at_getitem)

lemma le_scalar_Inr:
  "le_scalar vs t = Inr le \<Longrightarrow>
   length le = length vs
   \<and> (\<forall>i<length vs. le ! i = (case cell_num (vs ! i) of None \<Rightarrow> False | Some x \<Rightarrow> fle x t))"
  by (auto simp: le_scalar_def ebind_Inr_iff as_floats_iff list_all_iff num_of_def
           split: option.splits)

lemma gt_scalar_Inr:
  "gt_scalar vs t = Inr gt \<Longrightarrow>
   length gt = length vs
   \<and> (\<forall>i<length vs. gt ! i = (case cell_num (vs ! i) of None \<Rightarrow> False | Some x \<Rightarrow> fgt x t))"
  by (auto simp: gt_scalar_def ebind_Inr_iff as_floats_iff list_all_iff num_of_def
           split: option.splits)

lemma freq_step_Inr:
  assumes wf: "wf_frame m" and l: "length bs = nrows m"
    and f: "freq_step m bs g t = Inr fs"
  shows "length fs = nrows m
    \<and> (\<forall>i<nrows m. fs ! i =
          (bs ! i \<and> (case g of None \<Rightarrow> True | Some c \<Rightarrow> missing_or_le (cell_at m c i) t)))"
proof (cases g)
  case None
  with f l show ?thesis by (simp add: freq_step_def)
next
  case (Some c)
  with f obtain vs le where vs: "getitem m c = Inr vs" and le: "le_scalar vs t = Inr le"
    and fs: "fs = map2 (\<and>) bs (map2 (\<or>) (map isna vs) le)"
    by (auto simp: freq_step_def ebind_Inr_iff)
  have lv: "length vs = nrows m" using wf_getitem_length [OF wf vs] .
  from le_scalar_Inr [OF le] have ll: "length le = length vs"
    and lv': "\<And>i. i < length vs \<Longrightarrow>
               le ! i = (case cell_num (vs ! i) of None \<Rightarrow> False | Some x \<Rightarrow> fle x t)"
    by blast+
  have "length fs = nrows m" using fs l lv ll by simp
  moreover have "fs ! i =
          (bs ! i \<and> (case g of None \<Rightarrow> True | Some c \<Rightarrow> missing_or_le (cell_at m c i) t))"
    if "i < nrows m" for i
    using that fs l lv ll lv' [of i] cell_at_wf [OF wf vs that] Some
    by (simp add: missing_or_le_def)
  ultimately show ?thesis by blast
qed

lemma final_mask_Inr:
  assumes wf: "wf_frame m"
    and f: "final_mask m g1 g2 t1 t2 t3 = Inr fm"
  shows "length fm = nrows m
    \<and> (\<forall>i<nrows m. fm ! i =
          ((case g1 of None \<Rightarrow> True | Some c \<Rightarrow> missing_or_le (cell_at m c i) t1)
           \<and> (case g2 of None \<Rightarrow> True | Some c \<Rightarrow> missing_or_le (cell_at m c i) t2)
           \<and> cohort_pred m t3 i \<and> impact_pred m i))"
proof -
  from f obtain f1 f2 z zm tier where
    s1: "freq_step m (replicate (nrows m) True) g1 t1 = Inr f1"
    and s2: "freq_step m f1 g2 t2 = Inr f2"
    and z: "getitem m ''zim_AF'' = Inr z" and zm: "le_scalar z t3 = Inr zm"
    and tier: "getitem m ''impact_tier'' = Inr tier"
    and fm: "fm = map2 (\<and>) (map2 (\<and>) f2 zm) (isin tier [''LoF'', ''missense''])"
    unfolding final_mask_def Let_def by (auto simp: ebind_Inr_iff)
  from freq_step_Inr [OF wf _ s1] have l1: "length f1 = nrows m"
    and v1: "\<And>i. i < nrows m \<Longrightarrow>
      f1 ! i = (case g1 of None \<Rightarrow> True | Some c \<Rightarrow> missing_or_le (cell_at m c i) t1)"
    by simp_all
  from freq_step_Inr [OF wf l1 s2] have l2: "length f2 = nrows m"
    and v2: "\<And>i. i < nrows m \<Longrightarrow>
      f2 ! i = (f1 ! i \<and> (case g2 of None \<Rightarrow> True | Some c \<Rightarrow> missing_or_le (cell_at m c i) t2))"
    by simp_all
  have lz: "length z = nrows m" using wf_getitem_length [OF wf z] .
  have lt: "length tier = nrows m" using wf_getitem_length [OF wf tier] .
  from le_scalar_Inr [OF zm] lz have lzm: "length zm = nrows m"
    and vz: "\<And>i. i < nrows m \<Longrightarrow>
               zm ! i = (case cell_num (z ! i) of None \<Rightarrow> False | Some x \<Rightarrow> fle x t3)"
    by simp_all
  have "length fm = nrows m" using fm l2 lzm lt by (simp add: isin_def)
  moreover have "fm ! i =
          ((case g1 of None \<Rightarrow> True | Some c \<Rightarrow> missing_or_le (cell_at m c i) t1)
           \<and> (case g2 of None \<Rightarrow> True | Some c \<Rightarrow> missing_or_le (cell_at m c i) t2)
           \<and> cohort_pred m t3 i \<and> impact_pred m i)" if i: "i < nrows m" for i
  proof -
    have a: "fm ! i = (f2 ! i \<and> zm ! i \<and> cell_isin (tier ! i) [''LoF'', ''missense''])"
      using fm l2 lzm lt i by (simp add: isin_def)
    have b: "cohort_pred m t3 i = zm ! i"
      using vz [OF i] cell_at_wf [OF wf z i] by (simp add: cohort_pred_def)
    have c: "impact_pred m i = cell_isin (tier ! i) [''LoF'', ''missense'']"
      using cell_at_wf [OF wf tier i] by (auto simp: impact_pred_def cell_isin_def split: cell.splits)
    show ?thesis unfolding a b c v2 [OF i] v1 [OF i] by blast
  qed
  ultimately show ?thesis by blast
qed

lemma zip_as_map_upt:
  "length bs = n \<Longrightarrow> length xs = n \<Longrightarrow> zip bs xs = map (\<lambda>i. (bs ! i, xs ! i)) [0..<n]"
  by (intro nth_equalityI) auto

lemma keep_by_nth:
  assumes "length bs = n" and "length xs = n"
  shows "keep_by bs xs = map (\<lambda>i. xs ! i) (filter (\<lambda>i. bs ! i) [0..<n])"
  unfolding keep_by_def zip_as_map_upt [OF assms]
  by (simp add: filter_map comp_def)

lemma keep_by_upt: "length bs = n \<Longrightarrow> keep_by bs [0..<n] = filter (\<lambda>i. bs ! i) [0..<n]"
proof -
  assume l: "length bs = n"
  have "map (\<lambda>i. [0..<n] ! i) (filter (\<lambda>i. bs ! i) [0..<n]) = filter (\<lambda>i. bs ! i) [0..<n]"
    by (rule map_idI) simp
  with keep_by_nth [OF l, of "[0..<n]"] show ?thesis by simp
qed

lemma map_of_bool_index:
  "map_of (cols (bool_index m fm)) c = map_option (keep_by fm) (map_of (cols m) c)"
proof -
  have "map_of (map (\<lambda>p. (fst p, keep_by fm (snd p))) xs) c = map_option (keep_by fm) (map_of xs c)"
    for xs :: "(string \<times> cell list) list"
    by (induction xs) auto
  then show ?thesis by (simp add: bool_index_def)
qed

lemma index_bool_index [simp]: "index (bool_index m fm) = keep_by fm (index m)"
  by (simp add: bool_index_def)

lemma map_of_zip_upt:
  "l < n \<Longrightarrow> length vs = n \<Longrightarrow> map_of (zip [0..<n] vs) l = Some (vs ! l)"
  using map_of_zip_nth [of "[0..<n]" vs l] by simp

lemma index_reindex_empty [simp]: "index (reindex_empty df ls) = ls"
  by (simp add: reindex_empty_def)

lemma map_of_reindex_empty:
  "map_of (cols (reindex_empty df ls)) c
     = map_option (\<lambda>_. replicate (length ls) (Num NaN)) (map_of (cols df) c)"
proof -
  have "map_of (map (\<lambda>p. (fst p, v)) xs) c = map_option (\<lambda>_. v) (map_of xs c)"
    for xs :: "(string \<times> cell list) list" and v :: "cell list"
    by (induction xs) auto
  then show ?thesis by (simp add: reindex_empty_def)
qed

lemma aligned_values:
  assumes "length vs = n" and "\<forall>l\<in>set ix. l < n"
  shows "map (\<lambda>l. case map_of (zip [0..<n] vs) l of None \<Rightarrow> Num NaN | Some v \<Rightarrow> v) ix
           = map (\<lambda>l. vs ! l) ix"
  using assms by (intro map_cong) (simp_all add: map_of_zip_upt)

lemma add_flags_steps:
  "add_flags m f g1 g2 =
     ebind (flag_step m f (Some ''zim_AF'') ''flag_high_zim_af'') (\<lambda>f1.
     ebind (flag_step m f1 g1 ''flag_common_gnomad'') (\<lambda>f2.
     flag_step m f2 g2 ''flag_common_gnomad_afr''))"
  by (simp add: add_flags_def flag_step_def Let_def ebind_def split: sum.splits)

text \<open>
  One flag. The frame \<open>f\<close> that receives it holds rows of \<open>m\<close>; when it holds none and \<open>m\<close> has
  rows, it comes back with every row label of \<open>m\<close> and nothing but missing values in the columns
  it had.
\<close>

lemma flag_step_Inr:
  assumes wf: "wf_frame m" and ix: "index m = [0..<nrows m]"
    and lab: "\<forall>l\<in>set (index f). l < nrows m"
    and s: "flag_step m f (Some c) flag = Inr f'"
  shows "index f' = (if index f = [] then index m else index f)"
    and "getitem f' flag
           = Inr (map (\<lambda>l. Bool (cell_gt (cell_at m c l) (Fin (1 / 100)))) (index f'))"
    and "c' \<noteq> flag \<Longrightarrow> map_of (cols f') c' =
           (if index f = [] \<and> index m \<noteq> []
            then map_option (\<lambda>_. replicate (nrows m) (Num NaN)) (map_of (cols f) c')
            else map_of (cols f) c')"
proof -
  from s obtain vs gt where vs: "getitem m c = Inr vs"
    and gt: "gt_scalar vs (Fin (1 / 100)) = Inr gt"
    and f': "f' = setitem_aligned f flag (index m) (map Bool gt)"
    by (auto simp: flag_step_def ebind_Inr_iff)
  have lv: "length vs = nrows m" using wf_getitem_length [OF wf vs] .
  from gt_scalar_Inr [OF gt] lv have lg: "length gt = nrows m"
    and vg: "\<And>i. i < nrows m \<Longrightarrow>
      gt ! i = (case cell_num (vs ! i) of None \<Rightarrow> False | Some x \<Rightarrow> fgt x (Fin (1 / 100)))"
    by simp_all
  have val: "map Bool gt ! l = Bool (cell_gt (cell_at m c l) (Fin (1 / 100)))" if "l < nrows m" for l
    using that lg vg [OF that] cell_at_wf [OF wf vs that] by (simp add: cell_gt_def)
  have em: "map Bool gt \<noteq> [] \<longleftrightarrow> index m \<noteq> []"
    using lg by (auto simp: nrows_def)
  have lm: "length (index m) = nrows m" by (simp add: nrows_def)
  show "index f' = (if index f = [] then index m else index f)"
    and "getitem f' flag
           = Inr (map (\<lambda>l. Bool (cell_gt (cell_at m c l) (Fin (1 / 100)))) (index f'))"
    and "c' \<noteq> flag \<Longrightarrow> map_of (cols f') c' =
           (if index f = [] \<and> index m \<noteq> []
            then map_option (\<lambda>_. replicate (nrows m) (Num NaN)) (map_of (cols f) c')
            else map_of (cols f) c')"
  proof (atomize (full), cases "index f = [] \<and> index m \<noteq> []")
    case True
    then have fe: "f' = setitem (reindex_empty f (index m)) flag (map Bool gt)"
      using f' em by (simp add: setitem_aligned_def)
    have a: "index f' = index m" by (simp add: fe)
    have "map Bool gt = map (\<lambda>l. Bool (cell_gt (cell_at m c l) (Fin (1 / 100)))) [0..<nrows m]"
      using lg val by (intro nth_equalityI) simp_all
    then have b: "getitem f' flag
           = Inr (map (\<lambda>l. Bool (cell_gt (cell_at m c l) (Fin (1 / 100)))) (index f'))"
      unfolding a ix by (simp add: fe getitem_setitem)
    have c: "map_of (cols f') c' = map_option (\<lambda>_. replicate (nrows m) (Num NaN)) (map_of (cols f) c')"
      if "c' \<noteq> flag"
      using that by (simp add: fe map_of_setitem map_of_reindex_empty lm)
    from True a b c show "(index f' = (if index f = [] then index m else index f))
      \<and> (getitem f' flag
           = Inr (map (\<lambda>l. Bool (cell_gt (cell_at m c l) (Fin (1 / 100)))) (index f')))
      \<and> (c' \<noteq> flag \<longrightarrow> map_of (cols f') c' =
           (if index f = [] \<and> index m \<noteq> []
            then map_option (\<lambda>_. replicate (nrows m) (Num NaN)) (map_of (cols f) c')
            else map_of (cols f) c'))"
      by simp
  next
    case False
    then have fe: "f' = setitem f flag
             (map (\<lambda>l. case map_of (zip (index m) (map Bool gt)) l of None \<Rightarrow> Num NaN | Some v \<Rightarrow> v)
                (index f))"
      using f' em by (auto simp: setitem_aligned_def)
    have a: "index f' = index f" by (simp add: fe)
    from False have a': "(if index f = [] then index m else index f) = index f" by auto
    have "map (\<lambda>l. case map_of (zip [0..<nrows m] (map Bool gt)) l of None \<Rightarrow> Num NaN | Some v \<Rightarrow> v)
            (index f)
          = map (\<lambda>l. (map Bool gt) ! l) (index f)"
      using aligned_values [of "map Bool gt" "nrows m" "index f"] lg lab by simp
    also have "\<dots> = map (\<lambda>l. Bool (cell_gt (cell_at m c l) (Fin (1 / 100)))) (index f)"
      using lab val by (intro map_cong) auto
    finally have b: "getitem f' flag
           = Inr (map (\<lambda>l. Bool (cell_gt (cell_at m c l) (Fin (1 / 100)))) (index f'))"
      unfolding a by (simp add: fe getitem_setitem ix)
    have c: "map_of (cols f') c' = map_of (cols f) c'" if "c' \<noteq> flag"
      using that by (simp add: fe map_of_setitem)
    from False have nf: "(index f = [] \<and> index m \<noteq> []) = False" by simp
    from a a' b c show "(index f' = (if index f = [] then index m else index f))
      \<and> (getitem f' flag
           = Inr (map (\<lambda>l. Bool (cell_gt (cell_at m c l) (Fin (1 / 100)))) (index f')))
      \<and> (c' \<noteq> flag \<longrightarrow> map_of (cols f') c' =
           (if index f = [] \<and> index m \<noteq> []
            then map_option (\<lambda>_. replicate (nrows m) (Num NaN)) (map_of (cols f) c')
            else map_of (cols f) c'))"
      unfolding nf by simp
  qed
qed

text \<open>A later flag: the frame has rows by then, or \<open>m\<close> has none, so nothing but the flag changes.\<close>

lemma flag_step_stable:
  assumes wf: "wf_frame m" and ix: "index m = [0..<nrows m]"
    and lab: "\<forall>l\<in>set (index f). l < nrows m"
    and nr: "index f = [] \<longrightarrow> index m = []"
    and s: "flag_step m f g flag = Inr f'"
  shows "index f' = index f
    \<and> (\<forall>c'. c' \<noteq> flag \<longrightarrow> map_of (cols f') c' = map_of (cols f) c')
    \<and> (case g of None \<Rightarrow> f' = f
        | Some c \<Rightarrow> getitem f' flag
            = Inr (map (\<lambda>l. Bool (cell_gt (cell_at m c l) (Fin (1 / 100)))) (index f)))"
proof (cases g)
  case None
  with s show ?thesis by (simp add: flag_step_def)
next
  case (Some c)
  note r = flag_step_Inr [OF wf ix lab s [unfolded Some]]
  have a: "index f' = index f" using r(1) nr by auto
  have b: "\<forall>c'. c' \<noteq> flag \<longrightarrow> map_of (cols f') c' = map_of (cols f) c'"
  proof (intro allI impI)
    fix c' :: string assume "c' \<noteq> flag"
    from r(3) [OF this] nr show "map_of (cols f') c' = map_of (cols f) c'" by auto
  qed
  from r(2) a b Some show ?thesis by simp
qed

lemma flag_step_keeps:
  assumes "flag_step m f g flag = Inr f'" and "getitem f c = Inr v" and "c \<noteq> flag"
    and wf: "wf_frame m" and ix: "index m = [0..<nrows m]"
    and lab: "\<forall>l\<in>set (index f). l < nrows m"
    and nr: "index f = [] \<longrightarrow> index m = []"
  shows "getitem f' c = Inr v"
  using flag_step_stable [OF wf ix lab nr assms(1)] assms(2,3) by (simp add: getitem_def)

lemma add_flags_Inr:
  assumes wf: "wf_frame m" and ix: "index m = [0..<nrows m]"
    and lab: "\<forall>l\<in>set (index f). l < nrows m"
    and s: "add_flags m f g1 g2 = Inr fl"
  shows "index fl = (if index f = [] then index m else index f)"
    and "c \<notin> {''flag_high_zim_af'', ''flag_common_gnomad'', ''flag_common_gnomad_afr''}
           \<Longrightarrow> map_of (cols fl) c =
                 (if index f = [] \<and> index m \<noteq> []
                  then map_option (\<lambda>_. replicate (nrows m) (Num NaN)) (map_of (cols f) c)
                  else map_of (cols f) c)"
    and "getitem fl ''flag_high_zim_af''
           = Inr (map (\<lambda>l. Bool (cell_gt (cell_at m ''zim_AF'' l) (Fin (1 / 100)))) (index fl))"
    and "g1 = Some c1 \<Longrightarrow> getitem fl ''flag_common_gnomad''
           = Inr (map (\<lambda>l. Bool (cell_gt (cell_at m c1 l) (Fin (1 / 100)))) (index fl))"
    and "g2 = Some c2 \<Longrightarrow> getitem fl ''flag_common_gnomad_afr''
           = Inr (map (\<lambda>l. Bool (cell_gt (cell_at m c2 l) (Fin (1 / 100)))) (index fl))"
proof -
  from s obtain f1 f2 where
    s1: "flag_step m f (Some ''zim_AF'') ''flag_high_zim_af'' = Inr f1"
    and s2: "flag_step m f1 g1 ''flag_common_gnomad'' = Inr f2"
    and s3: "flag_step m f2 g2 ''flag_common_gnomad_afr'' = Inr fl"
    unfolding add_flags_steps by (auto simp: ebind_Inr_iff)
  note r1 = flag_step_Inr [OF wf ix lab s1]
  have i1: "index f1 = (if index f = [] then index m else index f)" using r1(1) .
  have lab1: "\<forall>l\<in>set (index f1). l < nrows m"
    unfolding i1 using lab ix by auto
  have nr1: "index f1 = [] \<longrightarrow> index m = []" unfolding i1 by auto
  note r2 = flag_step_stable [OF wf ix lab1 nr1 s2]
  from r2 have i2: "index f2 = index f1" by blast
  from lab1 i2 have lab2: "\<forall>l\<in>set (index f2). l < nrows m" by simp
  from nr1 i2 have nr2: "index f2 = [] \<longrightarrow> index m = []" by simp
  note r3 = flag_step_stable [OF wf ix lab2 nr2 s3]
  from r3 have i3: "index fl = index f2" by blast
  show il: "index fl = (if index f = [] then index m else index f)"
    using i3 i2 i1 by simp
  have ifl: "index fl = index f1" using i3 i2 by simp
  show "map_of (cols fl) c =
                 (if index f = [] \<and> index m \<noteq> []
                  then map_option (\<lambda>_. replicate (nrows m) (Num NaN)) (map_of (cols f) c)
                  else map_of (cols f) c)"
    if "c \<notin> {''flag_high_zim_af'', ''flag_common_gnomad'', ''flag_common_gnomad_afr''}"
  proof -
    from that have "map_of (cols fl) c = map_of (cols f1) c" using r2 r3 by simp
    with r1(3) [of c] that show ?thesis by simp
  qed
  have h1: "getitem f1 ''flag_high_zim_af''
           = Inr (map (\<lambda>l. Bool (cell_gt (cell_at m ''zim_AF'' l) (Fin (1 / 100)))) (index fl))"
    using r1(2) unfolding ifl .
  have h2: "getitem f2 ''flag_high_zim_af''
           = Inr (map (\<lambda>l. Bool (cell_gt (cell_at m ''zim_AF'' l) (Fin (1 / 100)))) (index fl))"
    by (rule flag_step_keeps [OF s2 h1 _ wf ix lab1 nr1]) simp
  show "getitem fl ''flag_high_zim_af''
           = Inr (map (\<lambda>l. Bool (cell_gt (cell_at m ''zim_AF'' l) (Fin (1 / 100)))) (index fl))"
    by (rule flag_step_keeps [OF s3 h2 _ wf ix lab2 nr2]) simp
  show "getitem fl ''flag_common_gnomad''
           = Inr (map (\<lambda>l. Bool (cell_gt (cell_at m c1 l) (Fin (1 / 100)))) (index fl))"
    if "g1 = Some c1"
  proof -
    from r2 that have "getitem f2 ''flag_common_gnomad''
           = Inr (map (\<lambda>l. Bool (cell_gt (cell_at m c1 l) (Fin (1 / 100)))) (index fl))"
      unfolding ifl by simp
    then show ?thesis by (rule flag_step_keeps [OF s3 _ _ wf ix lab2 nr2]) simp
  qed
  show "getitem fl ''flag_common_gnomad_afr''
           = Inr (map (\<lambda>l. Bool (cell_gt (cell_at m c2 l) (Fin (1 / 100)))) (index fl))"
    if "g2 = Some c2"
    using r3 that i2 ifl by simp
qed

lemma wf_fillna_setitem:
  assumes "wf_frame m" and "getitem m c = Inr z"
  shows "wf_frame (setitem m c (fillna0 z))"
  using wf_setitem [OF assms(1), of "fillna0 z" c] wf_getitem_length [OF assms]
  by (simp add: fillna0_def)

lemma prioritise_frames:
  assumes "prioritise pf ann zim_raw t1 t2 t3 = Inr out"
  shows "\<exists>fm.
       wf_frame (annotated out) \<and> index (annotated out) = [0..<nrows (annotated out)]
     \<and> final_mask (annotated out)
         (if gnomad_all_candidates (names ann) = [] then None else Some ''gnomad_AF_max'')
         (if gnomad_afr_candidates (names ann) = [] then None else Some ''gnomad_AFR_AF_max'')
         t1 t2 t3 = Inr fm
     \<and> add_flags (annotated out) (bool_index (annotated out) fm)
         (if gnomad_all_candidates (names ann) = [] then None else Some ''gnomad_AF_max'')
         (if gnomad_afr_candidates (names ann) = [] then None else Some ''gnomad_AFR_AF_max'')
         = Inr (prioritised out)
     \<and> VariantsAfter (nrows (bool_index (annotated out) fm)) \<in> set (stdout out)"
proof -
  from assms [unfolded prioritise_Inr_iff] obtain ann1 g_all ann2 g_afr zim merged0 z merged warn fm flagged
    where m1: "make_gnomad_max_col pf ann (gnomad_all_candidates (names ann)) ''gnomad_AF_max''
        = Inr (ann1, g_all)"
    and m2: "make_gnomad_max_col pf ann1 (gnomad_afr_candidates (names ann)) ''gnomad_AFR_AF_max''
        = Inr (ann2, g_afr)"
    and mg: "merge_left ann2 zim [''Chr'', ''Start'', ''Ref'', ''Alt''] = Inr merged0"
    and z: "getitem merged0 ''zim_AF'' = Inr z"
    and cl: "classify (setitem merged0 ''zim_AF'' (fillna0 z)) = Inr (merged, warn)"
    and fm: "final_mask merged g_all g_afr t1 t2 t3 = Inr fm"
    and fl: "add_flags merged (bool_index merged fm) g_all g_afr = Inr flagged"
    and a: "annotated out = merged" and p: "prioritised out = flagged"
    and st: "VariantsAfter (nrows (bool_index merged fm)) \<in> set (stdout out)"
    by auto
  from wf_merge_left [OF mg] have wf0: "wf_frame merged0" and i0: "index merged0 = [0..<nrows merged0]"
    by blast+
  have wf1: "wf_frame (setitem merged0 ''zim_AF'' (fillna0 z))"
    using wf_fillna_setitem [OF wf0 z] .
  from classify_frame [OF wf1 cl] obtain tier where
    me: "merged = setitem (setitem merged0 ''zim_AF'' (fillna0 z)) ''impact_tier'' tier"
    and lt: "length tier = nrows (setitem merged0 ''zim_AF'' (fillna0 z))"
    by blast
  have wf: "wf_frame merged" unfolding me using wf_setitem [OF wf1 lt] .
  have ix: "index merged = [0..<nrows merged]" unfolding me using i0 by simp
  note g1 = make_gnomad_max_col_Inr(1) [OF m1]
  note g2 = make_gnomad_max_col_Inr(1) [OF m2]
  from wf ix fm fl st show ?thesis unfolding a p g1 g2 by blast
qed

lemma update_last_entry:
  "k \<notin> fst ` set xs \<Longrightarrow> AList.update k v (xs @ [(k, w)]) = xs @ [(k, v)]"
  by (induction xs) auto

lemma prioritise_structure:
  assumes "prioritise pf ann zim_raw t1 t2 t3 = Inr out"
  shows "\<exists>ann1 g_all ann2 g_afr zim lk rk zaf warn n.
      set [''Chr'', ''Start'', ''End'', ''Ref'', ''Alt''] \<subseteq> set (names ann)
    \<and> make_gnomad_max_col pf ann (gnomad_all_candidates (names ann)) ''gnomad_AF_max''
        = Inr (ann1, g_all)
    \<and> make_gnomad_max_col pf ann1 (gnomad_afr_candidates (names ann)) ''gnomad_AFR_AF_max''
        = Inr (ann2, g_afr)
    \<and> load_zim_db pf zim_raw = Inr zim
    \<and> names zim = [''Chr'', ''Start'', ''Ref'', ''Alt'', ''zim_AF'']
    \<and> lookup_cols ann2 [''Chr'', ''Start'', ''Ref'', ''Alt''] = Inr lk
    \<and> lookup_cols zim [''Chr'', ''Start'', ''Ref'', ''Alt''] = Inr rk
    \<and> getitem zim ''zim_AF'' = Inr zaf
    \<and> ''zim_AF'' \<notin> set (names ann2) \<and> distinct (names ann2)
    \<and> classify
         \<lparr>index = [0..<length (merge_pairs (key_rows ann2 lk) (key_rows zim rk))],
          cols = map (\<lambda>p. (fst p, take_left (snd p) (merge_pairs (key_rows ann2 lk) (key_rows zim rk))))
                   (cols ann2)
                 @ [(''zim_AF'',
                     fillna0 (take_right zaf (merge_pairs (key_rows ann2 lk) (key_rows zim rk))))]\<rparr>
        = Inr (annotated out, warn)
    \<and> stdout out = [ReadingMultianno, VariantsBefore (nrows ann), UsingGnomad,
                     GlobalAF (gnomad_all_candidates (names ann)) g_all,
                     AfrAF (gnomad_afr_candidates (names ann)) g_afr,
                     ReadingCohort, CohortVariants (nrows zim)]
                    @ warn
                    @ [VariantsAfter n, WroteAnnotated, WrotePrioritised]"
proof -
  from assms [unfolded prioritise_Inr_iff] obtain ann1 g_all ann2 g_afr zim merged0 z merged warn fm flagged
    where cc: "check_core (names ann) [''Chr'', ''Start'', ''End'', ''Ref'', ''Alt''] = Inr ()"
    and m1: "make_gnomad_max_col pf ann (gnomad_all_candidates (names ann)) ''gnomad_AF_max''
        = Inr (ann1, g_all)"
    and m2: "make_gnomad_max_col pf ann1 (gnomad_afr_candidates (names ann)) ''gnomad_AFR_AF_max''
        = Inr (ann2, g_afr)"
    and ld: "load_zim_db pf zim_raw = Inr zim"
    and mg: "merge_left ann2 zim [''Chr'', ''Start'', ''Ref'', ''Alt''] = Inr merged0"
    and z: "getitem merged0 ''zim_AF'' = Inr z"
    and cl: "classify (setitem merged0 ''zim_AF'' (fillna0 z)) = Inr (merged, warn)"
    and fm: "final_mask merged g_all g_afr t1 t2 t3 = Inr fm"
    and fl: "add_flags merged (bool_index merged fm) g_all g_afr = Inr flagged"
    and out: "out = \<lparr>annotated = merged, prioritised = flagged,
              stdout = [ReadingMultianno, VariantsBefore (nrows ann), UsingGnomad,
                        GlobalAF (gnomad_all_candidates (names ann)) g_all,
                        AfrAF (gnomad_afr_candidates (names ann)) g_afr,
                        ReadingCohort, CohortVariants (nrows zim)]
                       @ warn
                       @ [VariantsAfter (nrows (bool_index merged fm)), WroteAnnotated,
                          WrotePrioritised]\<rparr>"
    by blast
  have core: "set [''Chr'', ''Start'', ''End'', ''Ref'', ''Alt''] \<subseteq> set (names ann)"
    using cc by (simp split: if_splits)
  from merge_left_Inr [OF mg] have dz: "distinct (names zim)" by blast
  note nz = load_zim_db_names [OF ld dz]
  from merge_left_five [OF mg nz z] obtain lk rk zaf where
    lk: "lookup_cols ann2 [''Chr'', ''Start'', ''Ref'', ''Alt''] = Inr lk"
    and rk: "lookup_cols zim [''Chr'', ''Start'', ''Ref'', ''Alt''] = Inr rk"
    and zaf: "getitem zim ''zim_AF'' = Inr zaf"
    and ni: "''zim_AF'' \<notin> set (names ann2)" and da: "distinct (names ann2)"
    and m0: "merged0 = \<lparr>index = [0..<length (merge_pairs (key_rows ann2 lk) (key_rows zim rk))],
            cols = map (\<lambda>p. (fst p, take_left (snd p) (merge_pairs (key_rows ann2 lk) (key_rows zim rk))))
                     (cols ann2)
                   @ [(''zim_AF'', take_right zaf (merge_pairs (key_rows ann2 lk) (key_rows zim rk)))]\<rparr>"
    and zv: "z = take_right zaf (merge_pairs (key_rows ann2 lk) (key_rows zim rk))"
    by blast
  let ?ps = "merge_pairs (key_rows ann2 lk) (key_rows zim rk)"
  have "''zim_AF'' \<notin> fst ` set (map (\<lambda>p. (fst p, take_left (snd p) ?ps)) (cols ann2))"
    using ni by (auto simp: names_def image_iff)
  from update_last_entry [OF this]
  have m1': "setitem merged0 ''zim_AF'' (fillna0 z)
          = \<lparr>index = [0..<length ?ps],
             cols = map (\<lambda>p. (fst p, take_left (snd p) ?ps)) (cols ann2)
                    @ [(''zim_AF'', fillna0 (take_right zaf ?ps))]\<rparr>"
    unfolding m0 zv setitem_def by simp
  have st: "stdout out = [ReadingMultianno, VariantsBefore (nrows ann), UsingGnomad,
                     GlobalAF (gnomad_all_candidates (names ann)) g_all,
                     AfrAF (gnomad_afr_candidates (names ann)) g_afr,
                     ReadingCohort, CohortVariants (nrows zim)]
                    @ warn
                    @ [VariantsAfter (nrows (bool_index merged fm)), WroteAnnotated, WrotePrioritised]"
    unfolding out by simp
  have "classify \<lparr>index = [0..<length ?ps],
             cols = map (\<lambda>p. (fst p, take_left (snd p) ?ps)) (cols ann2)
                    @ [(''zim_AF'', fillna0 (take_right zaf ?ps))]\<rparr> = Inr (annotated out, warn)"
    using cl unfolding m1' out by simp
  with core m1 m2 ld nz lk rk zaf ni da st show ?thesis by blast
qed

text \<open>
  What the prioritised table holds, for every run that produces output. Let \<open>kept\<close> be the rows
  of the merged (annotated) table at which all three predicates hold. The line printed after
  the filter gives the number of these rows. When there is such a row, the prioritised table
  has exactly the rows \<open>kept\<close>, with the cells of the merged table in every column but the
  flags. When there is none, the first flag gives the emptied table the row labels of the whole
  merged table: it has every row of the merged table, and each of its columns but the flags
  holds nothing but missing values.
\<close>

lemma prioritised_selection:
  assumes run: "prioritise pf ann zim_raw max_gnomad_af max_gnomad_afr_af max_zim_af = Inr out"
  defines "kept \<equiv> filter (\<lambda>i. frequency_pred (annotated out)
                        (gnomad_all_candidates (names ann) \<noteq> [])
                        (gnomad_afr_candidates (names ann) \<noteq> [])
                        max_gnomad_af max_gnomad_afr_af i
                     \<and> cohort_pred (annotated out) max_zim_af i
                     \<and> impact_pred (annotated out) i)
            (index (annotated out))"
  shows "VariantsAfter (length kept) \<in> set (stdout out)"
    and "index (prioritised out) = (if kept = [] then index (annotated out) else kept)"
    and "c \<notin> {''flag_high_zim_af'', ''flag_common_gnomad'', ''flag_common_gnomad_afr''}
         \<Longrightarrow> getitem (annotated out) c = Inr vs
         \<Longrightarrow> getitem (prioritised out) c
               = Inr (if kept = [] then replicate (nrows (annotated out)) (Num NaN)
                      else map (\<lambda>i. vs ! i) kept)"
proof -
  let ?m = "annotated out"
  let ?g1 = "if gnomad_all_candidates (names ann) = [] then None else Some ''gnomad_AF_max''"
  let ?g2 = "if gnomad_afr_candidates (names ann) = [] then None else Some ''gnomad_AFR_AF_max''"
  let ?P = "\<lambda>i. frequency_pred ?m (gnomad_all_candidates (names ann) \<noteq> [])
                        (gnomad_afr_candidates (names ann) \<noteq> [])
                        max_gnomad_af max_gnomad_afr_af i
                     \<and> cohort_pred ?m max_zim_af i \<and> impact_pred ?m i"
  from prioritise_frames [OF run] obtain fm where wf: "wf_frame ?m"
    and ix: "index ?m = [0..<nrows ?m]"
    and fm: "final_mask ?m ?g1 ?g2 max_gnomad_af max_gnomad_afr_af max_zim_af = Inr fm"
    and fl: "add_flags ?m (bool_index ?m fm) ?g1 ?g2 = Inr (prioritised out)"
    and st: "VariantsAfter (nrows (bool_index ?m fm)) \<in> set (stdout out)"
    by blast
  from final_mask_Inr [OF wf fm] have lf: "length fm = nrows ?m"
    and vf: "\<And>i. i < nrows ?m \<Longrightarrow> fm ! i =
          ((case ?g1 of None \<Rightarrow> True | Some c \<Rightarrow> missing_or_le (cell_at ?m c i) max_gnomad_af)
           \<and> (case ?g2 of None \<Rightarrow> True | Some c \<Rightarrow> missing_or_le (cell_at ?m c i) max_gnomad_afr_af)
           \<and> cohort_pred ?m max_zim_af i \<and> impact_pred ?m i)"
    by blast+
  have PP: "fm ! i = ?P i" if "i < nrows ?m" for i
    unfolding vf [OF that] frequency_pred_def by simp
  have kb: "keep_by fm [0..<nrows ?m] = filter ?P [0..<nrows ?m]"
    unfolding keep_by_upt [OF lf] by (rule filter_cong) (simp_all add: PP)
  have ib: "index (bool_index ?m fm) = kept"
    unfolding kept_def using kb ix by simp
  have lab: "\<forall>l\<in>set (index (bool_index ?m fm)). l < nrows ?m"
    unfolding ib kept_def ix by simp
  note af = add_flags_Inr [OF wf ix lab fl]
  show "VariantsAfter (length kept) \<in> set (stdout out)"
    using st ib by (simp add: nrows_def)
  show "index (prioritised out) = (if kept = [] then index ?m else kept)"
    using af(1) ib by simp
  show "getitem (prioritised out) c
               = Inr (if kept = [] then replicate (nrows ?m) (Num NaN)
                      else map (\<lambda>i. vs ! i) kept)"
    if c: "c \<notin> {''flag_high_zim_af'', ''flag_common_gnomad'', ''flag_common_gnomad_afr''}"
      and vs: "getitem ?m c = Inr vs"
  proof -
    have lv: "length vs = nrows ?m" using wf_getitem_length [OF wf vs] .
    have kv: "keep_by fm vs = map (\<lambda>i. vs ! i) kept"
      using keep_by_nth [OF lf lv] keep_by_upt [OF lf] kb ix by (simp add: kept_def)
    have mb: "map_of (cols (bool_index ?m fm)) c = Some (keep_by fm vs)"
      using vs by (simp add: map_of_bool_index getitem_Inr_iff)
    show ?thesis
    proof (cases "kept = []")
      case False
      with af(2) [OF c] mb ib kv show ?thesis by (simp add: getitem_Inr_iff)
    next
      case True
      show ?thesis
      proof (cases "index ?m = []")
        case False
        with af(2) [OF c] mb ib True show ?thesis by (simp add: getitem_Inr_iff)
      next
        case e: True
        then have "nrows ?m = 0" by (simp add: nrows_def)
        with af(2) [OF c] mb ib True kv e show ?thesis by (simp add: getitem_Inr_iff)
      qed
    qed
  qed
qed

text \<open>
  Claim C1 on a table of two variants that are both synonymous. No row of the merged table has
  the impact tier \<^verbatim>\<open>LoF\<close> or \<^verbatim>\<open>missense\<close>, so no row satisfies the three predicates, and the
  program prints that 0 variants are left after the filters. The prioritised table it writes
  nevertheless has both rows of the merged table: every column of the merged table holds
  missing values, and the flags are those of the two merged rows.
\<close>

theorem prioritise_empty_selection_regrows:
  "prioritise ex_pf ex_ann_synonymous ex_zim_freq (Fin (1 / 100)) (Fin (1 / 100)) (Fin (1 / 20))
     = Inr (projr (prioritise ex_pf ex_ann_synonymous ex_zim_freq
                     (Fin (1 / 100)) (Fin (1 / 100)) (Fin (1 / 20))))
   \<and> index (annotated (projr (prioritise ex_pf ex_ann_synonymous ex_zim_freq
                (Fin (1 / 100)) (Fin (1 / 100)) (Fin (1 / 20))))) = [0, 1]
   \<and> getitem (annotated (projr (prioritise ex_pf ex_ann_synonymous ex_zim_freq
                (Fin (1 / 100)) (Fin (1 / 100)) (Fin (1 / 20))))) ''impact_tier''
       = Inr [Str ''synonymous'', Str ''synonymous'']
   \<and> \<not> impact_pred (annotated (projr (prioritise ex_pf ex_ann_synonymous ex_zim_freq
                (Fin (1 / 100)) (Fin (1 / 100)) (Fin (1 / 20))))) 0
   \<and> \<not> impact_pred (annotated (projr (prioritise ex_pf ex_ann_synonymous ex_zim_freq
                (Fin (1 / 100)) (Fin (1 / 100)) (Fin (1 / 20))))) 1
   \<and> VariantsAfter 0 \<in> set (stdout (projr (prioritise ex_pf ex_ann_synonymous ex_zim_freq
                (Fin (1 / 100)) (Fin (1 / 100)) (Fin (1 / 20)))))
   \<and> prioritised (projr (prioritise ex_pf ex_ann_synonymous ex_zim_freq
                (Fin (1 / 100)) (Fin (1 / 100)) (Fin (1 / 20))))
       = \<lparr>index = [0, 1],
          cols = [(''Chr'', [Num NaN, Num NaN]), (''Start'', [Num NaN, Num NaN]),
                  (''End'', [Num NaN, Num NaN]), (''Ref'', [Num NaN, Num NaN]),
                  (''Alt'', [Num NaN, Num NaN]), (''Func.refGene'', [Num NaN, Num NaN]),
                  (''ExonicFunc.refGene'', [Num NaN, Num NaN]), (''AF'', [Num NaN, Num NaN]),
                  (''gnomad_AF_max'', [Num NaN, Num NaN]), (''zim_AF'', [Num NaN, Num NaN]),
                  (''impact_tier'', [Num NaN, Num NaN]),
                  (''flag_high_zim_af'', [Bool False, Bool True]),
                  (''flag_common_gnomad'', [Bool False, Bool False])]\<rparr>"
  by code_simp

section \<open>Columns of the annotated output, flags and impact tiers\<close>

lemma wf_joined:
  "wf_frame \<lparr>index = [0..<length ps],
             cols = map (\<lambda>p. (fst p, take_left (snd p) ps)) cs @ [(c, fillna0 (take_right zaf ps))]\<rparr>"
  by (auto simp: wf_frame_def list_all_iff nrows_def take_left_def take_right_def fillna0_def)

lemma names_joined:
  "names \<lparr>index = ix, cols = map (\<lambda>p. (fst p, take_left (snd p) ps)) (cols df) @ [(c, v)]\<rparr>
     = names df @ [c]"
  by (simp add: names_def comp_def)




lemma tier_spec_stopgain [simp]: "tier_spec (Str ''stopgain'') f = ''LoF''"
  by (simp add: tier_spec_def cell_isin_def lof_terms_def)

text \<open>
  Claim C4. When the annotation table has both consequence columns and the pipeline produces
  output, the impact tier of every row is the one the precedence of the specification gives
  (\<open>tier_spec\<close>: the default \<^verbatim>\<open>other\<close>, overridden by synonymous, then by missense, then by
  loss of function), and every row whose exonic consequence is \<^verbatim>\<open>stopgain\<close> is \<^verbatim>\<open>LoF\<close>.
\<close>

theorem impact_precedence:
  assumes run: "prioritise pf ann zim_raw max_gnomad_af max_gnomad_afr_af max_zim_af = Inr out"
    and fn: "''Func.refGene'' \<in> set (names ann)"
    and ex: "''ExonicFunc.refGene'' \<in> set (names ann)"
  shows "\<exists>exv fnv.
      getitem (annotated out) ''ExonicFunc.refGene'' = Inr exv
    \<and> getitem (annotated out) ''Func.refGene'' = Inr fnv
    \<and> length exv = nrows (annotated out) \<and> length fnv = nrows (annotated out)
    \<and> getitem (annotated out) ''impact_tier'' = Inr (map2 (\<lambda>e f. Str (tier_spec e f)) exv fnv)
    \<and> (\<forall>i<nrows (annotated out). exv ! i = Str ''stopgain''
          \<longrightarrow> cell_at (annotated out) ''impact_tier'' i = Some (Str ''LoF''))"
proof -
  from prioritise_structure [OF run] obtain ann1 g_all ann2 g_afr zim lk rk zaf warn where
    m1: "make_gnomad_max_col pf ann (gnomad_all_candidates (names ann)) ''gnomad_AF_max''
        = Inr (ann1, g_all)"
    and m2: "make_gnomad_max_col pf ann1 (gnomad_afr_candidates (names ann)) ''gnomad_AFR_AF_max''
        = Inr (ann2, g_afr)"
    and cl: "classify
         \<lparr>index = [0..<length (merge_pairs (key_rows ann2 lk) (key_rows zim rk))],
          cols = map (\<lambda>p. (fst p, take_left (snd p) (merge_pairs (key_rows ann2 lk) (key_rows zim rk))))
                   (cols ann2)
                 @ [(''zim_AF'',
                     fillna0 (take_right zaf (merge_pairs (key_rows ann2 lk) (key_rows zim rk))))]\<rparr>
        = Inr (annotated out, warn)"
    by blast
  define m where "m = \<lparr>index = [0..<length (merge_pairs (key_rows ann2 lk) (key_rows zim rk))],
          cols = map (\<lambda>p. (fst p, take_left (snd p) (merge_pairs (key_rows ann2 lk) (key_rows zim rk))))
                   (cols ann2)
                 @ [(''zim_AF'',
                     fillna0 (take_right zaf (merge_pairs (key_rows ann2 lk) (key_rows zim rk))))]\<rparr>"
  have wf: "wf_frame m" unfolding m_def by (rule wf_joined)
  have nm: "names m = names ann2 @ [''zim_AF'']" unfolding m_def by (rule names_joined)
  have sub: "set (names ann) \<subseteq> set (names ann2)"
    unfolding make_gnomad_max_col_Inr(3) [OF m2] make_gnomad_max_col_Inr(3) [OF m1] by auto
  have fn': "''Func.refGene'' \<in> set (names m)" and ex': "''ExonicFunc.refGene'' \<in> set (names m)"
    using fn ex sub nm by auto
  from classify_known [OF wf fn' ex' cl [folded m_def]] obtain exv fnv where
    e: "getitem m ''ExonicFunc.refGene'' = Inr exv" and f: "getitem m ''Func.refGene'' = Inr fnv"
    and le: "length exv = nrows m" and lf: "length fnv = nrows m"
    and a: "annotated out = setitem m ''impact_tier'' (map2 (\<lambda>e f. Str (tier_spec e f)) exv fnv)"
    by blast
  have n: "nrows (annotated out) = nrows m" by (simp add: a)
  have e': "getitem (annotated out) ''ExonicFunc.refGene'' = Inr exv"
    and f': "getitem (annotated out) ''Func.refGene'' = Inr fnv"
    and t: "getitem (annotated out) ''impact_tier'' = Inr (map2 (\<lambda>e f. Str (tier_spec e f)) exv fnv)"
    using e f by (simp_all add: a getitem_setitem)
  have s: "cell_at (annotated out) ''impact_tier'' i = Some (Str ''LoF'')"
    if "i < nrows (annotated out)" and "exv ! i = Str ''stopgain''" for i
    using cell_at_getitem [OF t, of i] that le lf n by simp
  from e' f' le lf t s n show ?thesis by auto
qed

theorem impact_precedence_witness:
  "prioritise ex_pf ex_ann ex_zim_freq (Fin (1 / 100)) (Fin (1 / 100)) (Fin (1 / 20))
     = Inr (projr (prioritise ex_pf ex_ann ex_zim_freq (Fin (1 / 100)) (Fin (1 / 100)) (Fin (1 / 20))))
   \<and> ''Func.refGene'' \<in> set (names ex_ann) \<and> ''ExonicFunc.refGene'' \<in> set (names ex_ann)
   \<and> getitem (annotated (projr (prioritise ex_pf ex_ann ex_zim_freq
                 (Fin (1 / 100)) (Fin (1 / 100)) (Fin (1 / 20))))) ''impact_tier''
       = Inr [Str ''LoF'', Str ''missense'', Str ''missense'', Str ''synonymous'', Str ''LoF'']
   \<and> (\<exists>exv fnv.
         getitem (annotated (projr (prioritise ex_pf ex_ann ex_zim_freq
                 (Fin (1 / 100)) (Fin (1 / 100)) (Fin (1 / 20))))) ''ExonicFunc.refGene'' = Inr exv
       \<and> getitem (annotated (projr (prioritise ex_pf ex_ann ex_zim_freq
                 (Fin (1 / 100)) (Fin (1 / 100)) (Fin (1 / 20))))) ''Func.refGene'' = Inr fnv
       \<and> getitem (annotated (projr (prioritise ex_pf ex_ann ex_zim_freq
                 (Fin (1 / 100)) (Fin (1 / 100)) (Fin (1 / 20))))) ''impact_tier''
           = Inr (map2 (\<lambda>e f. Str (tier_spec e f)) exv fnv))"
proof -
  have h: "prioritise ex_pf ex_ann ex_zim_freq (Fin (1 / 100)) (Fin (1 / 100)) (Fin (1 / 20))
     = Inr (projr (prioritise ex_pf ex_ann ex_zim_freq (Fin (1 / 100)) (Fin (1 / 100)) (Fin (1 / 20))))"
    by code_simp
  have f: "''Func.refGene'' \<in> set (names ex_ann)" by code_simp
  have e: "''ExonicFunc.refGene'' \<in> set (names ex_ann)" by code_simp
  have t: "getitem (annotated (projr (prioritise ex_pf ex_ann ex_zim_freq
                 (Fin (1 / 100)) (Fin (1 / 100)) (Fin (1 / 20))))) ''impact_tier''
       = Inr [Str ''LoF'', Str ''missense'', Str ''missense'', Str ''synonymous'', Str ''LoF'']"
    by code_simp
  from impact_precedence [OF h f e] h f e t show ?thesis by blast
qed

section \<open>Rows of the annotated output\<close>

lemma row_pairs_set:
  "(i', p) \<in> set (let js = filter (\<lambda>j. rk ! j = x) [0..<n]
                    in if js = [] then [(i, None)] else map (\<lambda>j. (i, Some j)) js) \<longleftrightarrow>
     i' = i \<and> (case p of None \<Rightarrow> \<forall>j<n. rk ! j \<noteq> x | Some j \<Rightarrow> j < n \<and> rk ! j = x)"
  by (cases p) (auto simp: Let_def filter_empty_conv)

lemma merge_pairs_set:
  "(i, p) \<in> set (merge_pairs lk rk) \<longleftrightarrow>
     i < length lk \<and>
     (case p of None \<Rightarrow> \<forall>j<length rk. rk ! j \<noteq> lk ! i
      | Some j \<Rightarrow> j < length rk \<and> rk ! j = lk ! i)"
proof -
  have "(i, p) \<in> set (merge_pairs lk rk) \<longleftrightarrow>
        (\<exists>i'\<in>set [0..<length lk]. (i, p) \<in> set (let js = filter (\<lambda>j. rk ! j = lk ! i') [0..<length rk]
                    in if js = [] then [(i', None)] else map (\<lambda>j. (i', Some j)) js))"
    unfolding merge_pairs_def by simp
  also have "\<dots> \<longleftrightarrow> (\<exists>i'\<in>set [0..<length lk]. i = i' \<and>
      (case p of None \<Rightarrow> \<forall>j<length rk. rk ! j \<noteq> lk ! i'
       | Some j \<Rightarrow> j < length rk \<and> rk ! j = lk ! i'))"
    unfolding row_pairs_set ..
  also have "\<dots> \<longleftrightarrow> i < length lk \<and>
     (case p of None \<Rightarrow> \<forall>j<length rk. rk ! j \<noteq> lk ! i
      | Some j \<Rightarrow> j < length rk \<and> rk ! j = lk ! i)"
    by auto
  finally show ?thesis .
qed

lemma merge_pairs_unmatched:
  assumes "k < length (merge_pairs lk rk)" and "snd (merge_pairs lk rk ! k) = None"
  shows "lk ! fst (merge_pairs lk rk ! k) \<notin> set rk"
proof -
  from assms have "(fst (merge_pairs lk rk ! k), None) \<in> set (merge_pairs lk rk)"
    using nth_mem [OF assms(1)] by (metis prod.collapse)
  then have "\<forall>j<length rk. rk ! j \<noteq> lk ! fst (merge_pairs lk rk ! k)"
    by (simp add: merge_pairs_set)
  then show ?thesis by (auto simp: in_set_conv_nth)
qed

lemma merge_pairs_matched:
  "k < length (merge_pairs lk rk) \<Longrightarrow> merge_pairs lk rk ! k = (i, Some j) \<Longrightarrow>
   i < length lk \<and> j < length rk \<and> rk ! j = lk ! i"
  using merge_pairs_set [of i "Some j" lk rk] nth_mem [of k "merge_pairs lk rk"] by simp

lemma merge_pairs_fst:
  "k < length (merge_pairs lk rk) \<Longrightarrow> fst (merge_pairs lk rk ! k) < length lk"
  using merge_pairs_set [of "fst (merge_pairs lk rk ! k)" "snd (merge_pairs lk rk ! k)" lk rk]
    nth_mem [of k "merge_pairs lk rk"] by simp

lemma merge_pairs_covers:
  assumes "i < length lk"
  shows "\<exists>k<length (merge_pairs lk rk). fst (merge_pairs lk rk ! k) = i"
proof -
  have "\<exists>p. (i, p) \<in> set (merge_pairs lk rk)"
  proof (cases "\<exists>j<length rk. rk ! j = lk ! i")
    case True
    then obtain j where "j < length rk" "rk ! j = lk ! i" by blast
    with assms have "(i, Some j) \<in> set (merge_pairs lk rk)" by (simp add: merge_pairs_set)
    then show ?thesis by blast
  next
    case False
    with assms have "(i, None) \<in> set (merge_pairs lk rk)" by (auto simp: merge_pairs_set)
    then show ?thesis by blast
  qed
  then obtain p k where "k < length (merge_pairs lk rk)" "merge_pairs lk rk ! k = (i, p)"
    by (auto simp: in_set_conv_nth)
  then show ?thesis by auto
qed

lemma not_candidate:
  "\<not> startswith ''AF'' c \<Longrightarrow>
   c \<notin> set (gnomad_all_candidates ns) \<and> c \<notin> set (gnomad_afr_candidates ns)"
  by (simp add: gnomad_all_candidates_def gnomad_afr_candidates_def)

lemma map_of_map_snd:
  "map_of (map (\<lambda>p. (fst p, take_left (snd p) ps)) cs) c = map_option (\<lambda>v. take_left v ps) (map_of cs c)"
  by (induction cs) auto

lemma getitem_joined_left:
  assumes "getitem df c = Inr v"
  shows "getitem \<lparr>index = ix, cols = map (\<lambda>p. (fst p, take_left (snd p) ps)) (cols df) @ [(c', w)]\<rparr> c
           = Inr (take_left v ps)"
proof -
  from assms have "map_of (map (\<lambda>p. (fst p, take_left (snd p) ps)) (cols df)) c = Some (take_left v ps)"
    by (simp add: map_of_map_snd getitem_Inr_iff)
  then have "map_of (map (\<lambda>p. (fst p, take_left (snd p) ps)) (cols df) @ [(c', w)]) c
               = Some (take_left v ps)"
    by (simp add: map_add_Some_iff)
  then show ?thesis by (simp add: getitem_Inr_iff)
qed

lemma getitem_joined_right:
  assumes "c' \<notin> set (names df)"
  shows "getitem \<lparr>index = ix, cols = map (\<lambda>p. (fst p, take_left (snd p) ps)) (cols df) @ [(c', w)]\<rparr> c'
           = Inr w"
proof -
  from assms have "map_of (cols df) c' = None"
    by (simp add: names_def map_of_eq_None_iff)
  then show ?thesis by (simp add: getitem_def map_of_map_snd map_add_def)
qed

lemma prioritise_rows:
  assumes run: "prioritise pf ann zim_raw t1 t2 t3 = Inr out"
  shows "\<exists>zim lk rk zaf.
      load_zim_db pf zim_raw = Inr zim
    \<and> lookup_cols ann [''Chr'', ''Start'', ''Ref'', ''Alt''] = Inr lk
    \<and> lookup_cols zim [''Chr'', ''Start'', ''Ref'', ''Alt''] = Inr rk
    \<and> getitem zim ''zim_AF'' = Inr zaf
    \<and> nrows (annotated out) = length (merge_pairs (key_rows ann lk) (key_rows zim rk))
    \<and> getitem (annotated out) ''zim_AF''
        = Inr (fillna0 (take_right zaf (merge_pairs (key_rows ann lk) (key_rows zim rk))))
    \<and> (\<forall>c v. c \<in> set [''Chr'', ''Start'', ''End'', ''Ref'', ''Alt''] \<and> getitem ann c = Inr v
          \<longrightarrow> getitem (annotated out) c
                = Inr (take_left v (merge_pairs (key_rows ann lk) (key_rows zim rk))))"
proof -
  from prioritise_structure [OF run] obtain ann1 g_all ann2 g_afr zim lk rk zaf warn where
    m1: "make_gnomad_max_col pf ann (gnomad_all_candidates (names ann)) ''gnomad_AF_max''
        = Inr (ann1, g_all)"
    and m2: "make_gnomad_max_col pf ann1 (gnomad_afr_candidates (names ann)) ''gnomad_AFR_AF_max''
        = Inr (ann2, g_afr)"
    and ld: "load_zim_db pf zim_raw = Inr zim"
    and lk: "lookup_cols ann2 [''Chr'', ''Start'', ''Ref'', ''Alt''] = Inr lk"
    and rk: "lookup_cols zim [''Chr'', ''Start'', ''Ref'', ''Alt''] = Inr rk"
    and zaf: "getitem zim ''zim_AF'' = Inr zaf"
    and ni: "''zim_AF'' \<notin> set (names ann2)"
    and cl: "classify
         \<lparr>index = [0..<length (merge_pairs (key_rows ann2 lk) (key_rows zim rk))],
          cols = map (\<lambda>p. (fst p, take_left (snd p) (merge_pairs (key_rows ann2 lk) (key_rows zim rk))))
                   (cols ann2)
                 @ [(''zim_AF'',
                     fillna0 (take_right zaf (merge_pairs (key_rows ann2 lk) (key_rows zim rk))))]\<rparr>
        = Inr (annotated out, warn)"
    by blast
  have same: "getitem ann2 c = getitem ann c"
    if "c \<in> set [''Chr'', ''Start'', ''End'', ''Ref'', ''Alt'']" for c
  proof -
    from that have ns: "\<not> startswith ''AF'' c" and ne: "c \<noteq> ''gnomad_AF_max''" "c \<noteq> ''gnomad_AFR_AF_max''"
      by (auto simp: startswith_def)
    from make_gnomad_max_col_Inr(4) [OF m1, of c] make_gnomad_max_col_Inr(4) [OF m2, of c]
      not_candidate [OF ns] ne
    show ?thesis by (simp add: getitem_def)
  qed
  have lk': "lookup_cols ann [''Chr'', ''Start'', ''Ref'', ''Alt''] = Inr lk"
    using lk by (simp add: same)
  have nr: "nrows ann2 = nrows ann"
    using make_gnomad_max_col_Inr(2) [OF m1] make_gnomad_max_col_Inr(2) [OF m2]
    by (simp add: nrows_def)
  have kr: "key_rows ann2 lk = key_rows ann lk" by (simp add: key_rows_def nr)
  define ps where "ps = merge_pairs (key_rows ann lk) (key_rows zim rk)"
  define m where "m = \<lparr>index = [0..<length ps],
          cols = map (\<lambda>p. (fst p, take_left (snd p) ps)) (cols ann2)
                 @ [(''zim_AF'', fillna0 (take_right zaf ps))]\<rparr>"
  have cl': "classify m = Inr (annotated out, warn)"
    using cl unfolding kr m_def ps_def .
  have wf: "wf_frame m" unfolding m_def by (rule wf_joined)
  from classify_frame [OF wf cl'] obtain tier where
    a: "annotated out = setitem m ''impact_tier'' tier" by blast
  have n: "nrows (annotated out) = length ps" by (simp add: a) (simp add: m_def nrows_def)
  have z: "getitem (annotated out) ''zim_AF'' = Inr (fillna0 (take_right zaf ps))"
    unfolding a getitem_setitem m_def using getitem_joined_right [OF ni] by simp
  have c: "getitem (annotated out) c = Inr (take_left v ps)"
    if "c \<in> set [''Chr'', ''Start'', ''End'', ''Ref'', ''Alt'']" and "getitem ann c = Inr v" for c v
  proof -
    from that have "getitem ann2 c = Inr v" by (simp add: same)
    from getitem_joined_left [OF this] have "getitem m c = Inr (take_left v ps)"
      unfolding m_def .
    moreover from that(1) have "c \<noteq> ''impact_tier''" by auto
    ultimately show ?thesis by (simp add: a getitem_setitem)
  qed
  from ld lk' rk zaf n z c show ?thesis unfolding ps_def by blast
qed

lemma key_tuples_eq:
  "lookup_cols df [''Chr'', ''Start'', ''Ref'', ''Alt''] = Inr kc \<Longrightarrow> key_tuples df = key_rows df kc"
  by (simp add: key_tuples_def)

lemma lookup_four:
  "lookup_cols df [a, b, c, d] = Inr kc \<longleftrightarrow>
     (\<exists>va vb vc vd. getitem df a = Inr va \<and> getitem df b = Inr vb \<and> getitem df c = Inr vc
        \<and> getitem df d = Inr vd \<and> kc = [va, vb, vc, vd])"
  by (auto simp: ebind_Inr_iff)

lemma key_rows_nth: "i < nrows df \<Longrightarrow> key_rows df kc ! i = row_at kc i"
  by (simp add: key_rows_def)

lemma length_key_rows [simp]: "length (key_rows df kc) = nrows df"
  by (simp add: key_rows_def)

lemma prioritise_joined:
  assumes run: "prioritise pf ann zim_raw t1 t2 t3 = Inr out"
    and ld: "load_zim_db pf zim_raw = Inr zim"
  shows "\<exists>zaf.
      getitem zim ''zim_AF'' = Inr zaf
    \<and> nrows (annotated out) = length (merge_pairs (key_tuples ann) (key_tuples zim))
    \<and> getitem (annotated out) ''zim_AF''
        = Inr (fillna0 (take_right zaf (merge_pairs (key_tuples ann) (key_tuples zim))))
    \<and> (\<forall>c v. c \<in> set [''Chr'', ''Start'', ''End'', ''Ref'', ''Alt''] \<and> getitem ann c = Inr v
          \<longrightarrow> getitem (annotated out) c
                = Inr (take_left v (merge_pairs (key_tuples ann) (key_tuples zim))))
    \<and> (\<forall>k<nrows (annotated out).
          key_tuples (annotated out) ! k
            = key_tuples ann ! fst (merge_pairs (key_tuples ann) (key_tuples zim) ! k))
    \<and> length (key_tuples ann) = nrows ann
    \<and> set [''Chr'', ''Start'', ''End'', ''Ref'', ''Alt''] \<subseteq> set (names ann)"
proof -
  from prioritise_rows [OF run] ld obtain lk rk zaf where
    lk: "lookup_cols ann [''Chr'', ''Start'', ''Ref'', ''Alt''] = Inr lk"
    and rk: "lookup_cols zim [''Chr'', ''Start'', ''Ref'', ''Alt''] = Inr rk"
    and zaf: "getitem zim ''zim_AF'' = Inr zaf"
    and n: "nrows (annotated out) = length (merge_pairs (key_rows ann lk) (key_rows zim rk))"
    and z: "getitem (annotated out) ''zim_AF''
        = Inr (fillna0 (take_right zaf (merge_pairs (key_rows ann lk) (key_rows zim rk))))"
    and c: "\<And>c v. c \<in> set [''Chr'', ''Start'', ''End'', ''Ref'', ''Alt''] \<Longrightarrow> getitem ann c = Inr v
          \<Longrightarrow> getitem (annotated out) c
                = Inr (take_left v (merge_pairs (key_rows ann lk) (key_rows zim rk)))"
    by auto
  have ka: "key_tuples ann = key_rows ann lk" using key_tuples_eq [OF lk] .
  have kz: "key_tuples zim = key_rows zim rk" using key_tuples_eq [OF rk] .
  define ps where "ps = merge_pairs (key_tuples ann) (key_tuples zim)"
  have ps: "merge_pairs (key_rows ann lk) (key_rows zim rk) = ps" by (simp add: ps_def ka kz)
  from lk obtain va vb vc vd where g: "getitem ann ''Chr'' = Inr va" "getitem ann ''Start'' = Inr vb"
    "getitem ann ''Ref'' = Inr vc" "getitem ann ''Alt'' = Inr vd" and lkv: "lk = [va, vb, vc, vd]"
    unfolding lookup_four by blast
  have lo: "lookup_cols (annotated out) [''Chr'', ''Start'', ''Ref'', ''Alt'']
              = Inr (map (\<lambda>v. take_left v ps) lk)"
    unfolding lookup_four lkv using c [OF _ g(1)] c [OF _ g(2)] c [OF _ g(3)] c [OF _ g(4)]
    by (simp add: ps)
  have ko: "key_tuples (annotated out) = key_rows (annotated out) (map (\<lambda>v. take_left v ps) lk)"
    using key_tuples_eq [OF lo] .
  have kk: "key_tuples (annotated out) ! k = key_tuples ann ! fst (ps ! k)"
    if "k < nrows (annotated out)" for k
  proof -
    from that n have k: "k < length ps" by (simp add: ps)
    have f: "fst (ps ! k) < nrows ann"
      using merge_pairs_fst [of k "key_tuples ann" "key_tuples zim"] k
      by (simp add: ps_def ka)
    show ?thesis
      unfolding ko ka key_rows_nth [OF that] key_rows_nth [OF f]
      using k by (simp add: row_at_def take_left_def)
  qed
  have core: "set [''Chr'', ''Start'', ''End'', ''Ref'', ''Alt''] \<subseteq> set (names ann)"
    using prioritise_structure [OF run] by blast
  have la: "length (key_tuples ann) = nrows ann" by (simp add: ka)
  from zaf n z c kk core la show ?thesis unfolding ps by (simp only: ps_def [symmetric]) blast
qed

lemma fillna0_nth_unmatched:
  "k < length ps \<Longrightarrow> snd (ps ! k) = None \<Longrightarrow> fillna0 (take_right zaf ps) ! k = Num (Fin 0)"
  by (simp add: fillna0_def take_right_def isna_def)

text \<open>
  Claim C2. Whenever the pipeline produces output from an annotation table with one cell per
  row in every column: every annotation row whose identity tuple is the tuple of no record of the
  loaded cohort table is a row of the annotated output (same \<^verbatim>\<open>Chr\<close>, \<^verbatim>\<open>Start\<close>, \<^verbatim>\<open>End\<close>,
  \<^verbatim>\<open>Ref\<close>, \<^verbatim>\<open>Alt\<close>) with \<^verbatim>\<open>zim_AF\<close> equal to the number 0.0, not missing; and every row of the
  annotated output with such a tuple has \<^verbatim>\<open>zim_AF\<close> equal to 0.0.
\<close>

theorem absent_cohort_record_gives_zero:
  assumes run: "prioritise pf ann zim_raw max_gnomad_af max_gnomad_afr_af max_zim_af = Inr out"
    and ld: "load_zim_db pf zim_raw = Inr zim"
    and wf: "wf_frame ann"
  shows "(\<forall>i<nrows ann. key_tuples ann ! i \<notin> set (key_tuples zim) \<longrightarrow>
            (\<exists>k<nrows (annotated out).
                (\<forall>c\<in>set [''Chr'', ''Start'', ''End'', ''Ref'', ''Alt''].
                    cell_at (annotated out) c k = cell_at ann c i)
              \<and> cell_at (annotated out) ''zim_AF'' k = Some (Num (Fin 0))))
       \<and> (\<forall>k<nrows (annotated out). key_tuples (annotated out) ! k \<notin> set (key_tuples zim) \<longrightarrow>
            cell_at (annotated out) ''zim_AF'' k = Some (Num (Fin 0)))"
proof -
  define ps where "ps = merge_pairs (key_tuples ann) (key_tuples zim)"
  from prioritise_joined [OF run ld] obtain zaf where
    n: "nrows (annotated out) = length ps"
    and z: "getitem (annotated out) ''zim_AF'' = Inr (fillna0 (take_right zaf ps))"
    and c: "\<And>c v. c \<in> set [''Chr'', ''Start'', ''End'', ''Ref'', ''Alt''] \<Longrightarrow> getitem ann c = Inr v
          \<Longrightarrow> getitem (annotated out) c = Inr (take_left v ps)"
    and kk: "\<And>k. k < nrows (annotated out) \<Longrightarrow>
          key_tuples (annotated out) ! k = key_tuples ann ! fst (ps ! k)"
    and la: "length (key_tuples ann) = nrows ann"
    and core: "set [''Chr'', ''Start'', ''End'', ''Ref'', ''Alt''] \<subseteq> set (names ann)"
    unfolding ps_def by blast
  have lz: "length (fillna0 (take_right zaf ps)) = length ps"
    by (simp add: fillna0_def take_right_def)
  have zero: "cell_at (annotated out) ''zim_AF'' k = Some (Num (Fin 0))"
    if k: "k < length ps" and u: "key_tuples ann ! fst (ps ! k) \<notin> set (key_tuples zim)" for k
  proof -
    have "snd (ps ! k) = None"
    proof (cases "snd (ps ! k)")
      case None
      then show ?thesis .
    next
      case (Some j)
      then have "ps ! k = (fst (ps ! k), Some j)" by (metis prod.collapse)
      from merge_pairs_matched [OF k [unfolded ps_def] this [unfolded ps_def]]
      have "j < length (key_tuples zim)" and "key_tuples zim ! j = key_tuples ann ! fst (ps ! k)"
        by (simp_all add: ps_def)
      then have "key_tuples ann ! fst (ps ! k) \<in> set (key_tuples zim)"
        by (metis nth_mem)
      with u show ?thesis by blast
    qed
    from fillna0_nth_unmatched [OF k this] cell_at_getitem [OF z, of k] k lz
    show ?thesis by simp
  qed
  have second: "\<forall>k<nrows (annotated out). key_tuples (annotated out) ! k \<notin> set (key_tuples zim) \<longrightarrow>
            cell_at (annotated out) ''zim_AF'' k = Some (Num (Fin 0))"
    using zero kk n by simp
  have first: "\<exists>k<nrows (annotated out).
                (\<forall>c\<in>set [''Chr'', ''Start'', ''End'', ''Ref'', ''Alt''].
                    cell_at (annotated out) c k = cell_at ann c i)
              \<and> cell_at (annotated out) ''zim_AF'' k = Some (Num (Fin 0))"
    if i: "i < nrows ann" and u: "key_tuples ann ! i \<notin> set (key_tuples zim)" for i
  proof -
    from merge_pairs_covers [of i "key_tuples ann" "key_tuples zim"] i la
    obtain k where k: "k < length ps" and f: "fst (ps ! k) = i"
      unfolding ps_def by auto
    have "cell_at (annotated out) c k = cell_at ann c i"
      if cc: "c \<in> set [''Chr'', ''Start'', ''End'', ''Ref'', ''Alt'']" for c
    proof -
      from cc core have "c \<in> set (names ann)" by blast
      from getitem_in_names [OF this] obtain v where v: "getitem ann c = Inr v" by blast
      have "cell_at (annotated out) c k = Some (take_left v ps ! k)"
        using cell_at_getitem [OF c [OF cc v], of k] k by (simp add: take_left_def)
      also have "\<dots> = Some (v ! i)" using k f by (simp add: take_left_def)
      also have "\<dots> = cell_at ann c i" using cell_at_wf [OF wf v i] by simp
      finally show ?thesis .
    qed
    moreover have "cell_at (annotated out) ''zim_AF'' k = Some (Num (Fin 0))"
      using zero [OF k] u f by simp
    ultimately show ?thesis using k n by auto
  qed
  from first second show ?thesis by blast
qed

theorem absent_cohort_record_gives_zero_witness:
  "prioritise ex_pf ex_ann ex_zim_freq (Fin (1 / 100)) (Fin (1 / 100)) (Fin (1 / 20))
     = Inr (projr (prioritise ex_pf ex_ann ex_zim_freq (Fin (1 / 100)) (Fin (1 / 100)) (Fin (1 / 20))))
   \<and> load_zim_db ex_pf ex_zim_freq = Inr (projr (load_zim_db ex_pf ex_zim_freq))
   \<and> wf_frame ex_ann
   \<and> 3 < nrows ex_ann
   \<and> key_tuples ex_ann ! 3 \<notin> set (key_tuples (projr (load_zim_db ex_pf ex_zim_freq)))
   \<and> (\<exists>k<nrows (annotated (projr (prioritise ex_pf ex_ann ex_zim_freq
                    (Fin (1 / 100)) (Fin (1 / 100)) (Fin (1 / 20))))).
         (\<forall>c\<in>set [''Chr'', ''Start'', ''End'', ''Ref'', ''Alt''].
             cell_at (annotated (projr (prioritise ex_pf ex_ann ex_zim_freq
                    (Fin (1 / 100)) (Fin (1 / 100)) (Fin (1 / 20))))) c k = cell_at ex_ann c 3)
       \<and> cell_at (annotated (projr (prioritise ex_pf ex_ann ex_zim_freq
                    (Fin (1 / 100)) (Fin (1 / 100)) (Fin (1 / 20))))) ''zim_AF'' k
           = Some (Num (Fin 0)))
   \<and> getitem (annotated (projr (prioritise ex_pf ex_ann ex_zim_freq
                 (Fin (1 / 100)) (Fin (1 / 100)) (Fin (1 / 20))))) ''zim_AF''
       = Inr [Num (Fin 0), Num (Fin (1 / 10)), Num (Fin (1 / 100)), Num (Fin 0), Num (Fin 0)]"
proof -
  have h: "prioritise ex_pf ex_ann ex_zim_freq (Fin (1 / 100)) (Fin (1 / 100)) (Fin (1 / 20))
     = Inr (projr (prioritise ex_pf ex_ann ex_zim_freq (Fin (1 / 100)) (Fin (1 / 100)) (Fin (1 / 20))))"
    by code_simp
  have l: "load_zim_db ex_pf ex_zim_freq = Inr (projr (load_zim_db ex_pf ex_zim_freq))"
    by code_simp
  have w: "wf_frame ex_ann" by code_simp
  have i: "3 < nrows ex_ann" by code_simp
  have u: "key_tuples ex_ann ! 3 \<notin> set (key_tuples (projr (load_zim_db ex_pf ex_zim_freq)))"
    by code_simp
  have z: "getitem (annotated (projr (prioritise ex_pf ex_ann ex_zim_freq
                 (Fin (1 / 100)) (Fin (1 / 100)) (Fin (1 / 20))))) ''zim_AF''
       = Inr [Num (Fin 0), Num (Fin (1 / 10)), Num (Fin (1 / 100)), Num (Fin 0), Num (Fin 0)]"
    by code_simp
  from absent_cohort_record_gives_zero [OF h l w] i u h l w z show ?thesis by blast
qed

section \<open>Cohort records of unknown frequency\<close>







section \<open>Without the consequence columns\<close>

text \<open>
  Every run that produces output from an annotation table without \<^verbatim>\<open>Func.refGene\<close> or
  without \<^verbatim>\<open>ExonicFunc.refGene\<close>: the warning is printed, every row of the annotated table has
  the impact tier \<^verbatim>\<open>unknown\<close>, and the count printed after the filters is 0. The prioritised
  table is not empty for that: it has every row label of the annotated table, and missing
  values in each of its columns but the flags.
\<close>

lemma degraded_mode:
  assumes run: "prioritise pf ann zim_raw t1 t2 t3 = Inr out"
    and miss: "''Func.refGene'' \<notin> set (names ann) \<or> ''ExonicFunc.refGene'' \<notin> set (names ann)"
  shows "WarningNoConsequence \<in> set (stdout out)"
    and "getitem (annotated out) ''impact_tier''
           = Inr (replicate (nrows (annotated out)) (Str ''unknown''))"
    and "VariantsAfter 0 \<in> set (stdout out)"
    and "index (prioritised out) = index (annotated out)"
    and "c \<notin> {''flag_high_zim_af'', ''flag_common_gnomad'', ''flag_common_gnomad_afr''}
         \<Longrightarrow> getitem (annotated out) c = Inr vs
         \<Longrightarrow> getitem (prioritised out) c = Inr (replicate (nrows (annotated out)) (Num NaN))"
proof -
  from prioritise_structure [OF run] obtain ann1 g_all ann2 g_afr zim lk rk zaf warn n where
    m1: "make_gnomad_max_col pf ann (gnomad_all_candidates (names ann)) ''gnomad_AF_max''
        = Inr (ann1, g_all)"
    and m2: "make_gnomad_max_col pf ann1 (gnomad_afr_candidates (names ann)) ''gnomad_AFR_AF_max''
        = Inr (ann2, g_afr)"
    and cl: "classify
         \<lparr>index = [0..<length (merge_pairs (key_rows ann2 lk) (key_rows zim rk))],
          cols = map (\<lambda>p. (fst p, take_left (snd p) (merge_pairs (key_rows ann2 lk) (key_rows zim rk))))
                   (cols ann2)
                 @ [(''zim_AF'',
                     fillna0 (take_right zaf (merge_pairs (key_rows ann2 lk) (key_rows zim rk))))]\<rparr>
        = Inr (annotated out, warn)"
    and st: "stdout out = [ReadingMultianno, VariantsBefore (nrows ann), UsingGnomad,
                     GlobalAF (gnomad_all_candidates (names ann)) g_all,
                     AfrAF (gnomad_afr_candidates (names ann)) g_afr,
                     ReadingCohort, CohortVariants (nrows zim)]
                    @ warn
                    @ [VariantsAfter n, WroteAnnotated, WrotePrioritised]"
    by blast
  define m where "m = \<lparr>index = [0..<length (merge_pairs (key_rows ann2 lk) (key_rows zim rk))],
          cols = map (\<lambda>p. (fst p, take_left (snd p) (merge_pairs (key_rows ann2 lk) (key_rows zim rk))))
                   (cols ann2)
                 @ [(''zim_AF'',
                     fillna0 (take_right zaf (merge_pairs (key_rows ann2 lk) (key_rows zim rk))))]\<rparr>"
  have nm: "names m = names ann2 @ [''zim_AF'']" unfolding m_def by (rule names_joined)
  have sub: "set (names ann2) \<subseteq> set (names ann) \<union> {''gnomad_AF_max'', ''gnomad_AFR_AF_max''}"
    unfolding make_gnomad_max_col_Inr(3) [OF m2] make_gnomad_max_col_Inr(3) [OF m1] by auto
  have "''Func.refGene'' \<notin> set (names m) \<or> ''ExonicFunc.refGene'' \<notin> set (names m)"
    using miss sub unfolding nm by auto
  from classify_unknown [OF this] cl [folded m_def]
  have a: "annotated out = setitem m ''impact_tier'' (replicate (nrows m) (Str ''unknown''))"
    and w: "warn = [WarningNoConsequence]" by simp_all
  show "WarningNoConsequence \<in> set (stdout out)" unfolding st w by simp
  show t: "getitem (annotated out) ''impact_tier''
           = Inr (replicate (nrows (annotated out)) (Str ''unknown''))"
    by (simp add: a getitem_setitem)
  have no: "\<not> impact_pred (annotated out) i" for i
  proof (cases "i < nrows (annotated out)")
    case True
    with cell_at_getitem [OF t, of i] show ?thesis by (simp add: impact_pred_def)
  next
    case False
    then show ?thesis using t by (simp add: impact_pred_def cell_at_def getitem_Inr_iff)
  qed
  have e: "filter (\<lambda>i. frequency_pred (annotated out)
                        (gnomad_all_candidates (names ann) \<noteq> [])
                        (gnomad_afr_candidates (names ann) \<noteq> []) t1 t2 i
                     \<and> cohort_pred (annotated out) t3 i
                     \<and> impact_pred (annotated out) i)
            (index (annotated out)) = []"
    using no by (simp add: filter_empty_conv)
  note ps = prioritised_selection [OF run, unfolded e]
  show "VariantsAfter 0 \<in> set (stdout out)" using ps(1) by simp
  show "index (prioritised out) = index (annotated out)" using ps(2) by simp
  show "getitem (prioritised out) c = Inr (replicate (nrows (annotated out)) (Num NaN))"
    if "c \<notin> {''flag_high_zim_af'', ''flag_common_gnomad'', ''flag_common_gnomad_afr''}"
      and "getitem (annotated out) c = Inr vs"
    using ps(3) [OF that] by simp
qed

text \<open>
  Claim C5 on a table of two variants without \<^verbatim>\<open>Func.refGene\<close>. The run does not fail, the
  warning is printed, both rows of the annotated table have the impact tier \<^verbatim>\<open>unknown\<close>, and
  the count printed after the filters is 0. The prioritised table that is written has
  both rows all the same: missing values in every column of the merged table, and the flags of
  the two merged rows.
\<close>

theorem missing_consequence_columns_regrow:
  "''Func.refGene'' \<notin> set (names ex_ann_no_func)
   \<and> prioritise ex_pf ex_ann_no_func ex_zim_freq (Fin (1 / 100)) (Fin (1 / 100)) (Fin (1 / 20))
       = Inr (projr (prioritise ex_pf ex_ann_no_func ex_zim_freq
                       (Fin (1 / 100)) (Fin (1 / 100)) (Fin (1 / 20))))
   \<and> WarningNoConsequence \<in> set (stdout (projr (prioritise ex_pf ex_ann_no_func ex_zim_freq
                (Fin (1 / 100)) (Fin (1 / 100)) (Fin (1 / 20)))))
   \<and> getitem (annotated (projr (prioritise ex_pf ex_ann_no_func ex_zim_freq
                (Fin (1 / 100)) (Fin (1 / 100)) (Fin (1 / 20))))) ''impact_tier''
       = Inr [Str ''unknown'', Str ''unknown'']
   \<and> getitem (annotated (projr (prioritise ex_pf ex_ann_no_func ex_zim_freq
                (Fin (1 / 100)) (Fin (1 / 100)) (Fin (1 / 20))))) ''Chr''
       = Inr [Str ''chr1'', Str ''chr2'']
   \<and> VariantsAfter 0 \<in> set (stdout (projr (prioritise ex_pf ex_ann_no_func ex_zim_freq
                (Fin (1 / 100)) (Fin (1 / 100)) (Fin (1 / 20)))))
   \<and> prioritised (projr (prioritise ex_pf ex_ann_no_func ex_zim_freq
                (Fin (1 / 100)) (Fin (1 / 100)) (Fin (1 / 20))))
       = \<lparr>index = [0, 1],
          cols = [(''Chr'', [Num NaN, Num NaN]), (''Start'', [Num NaN, Num NaN]),
                  (''End'', [Num NaN, Num NaN]), (''Ref'', [Num NaN, Num NaN]),
                  (''Alt'', [Num NaN, Num NaN]), (''ExonicFunc.refGene'', [Num NaN, Num NaN]),
                  (''AF'', [Num NaN, Num NaN]), (''gnomad_AF_max'', [Num NaN, Num NaN]),
                  (''zim_AF'', [Num NaN, Num NaN]), (''impact_tier'', [Num NaN, Num NaN]),
                  (''flag_high_zim_af'', [Bool False, Bool True]),
                  (''flag_common_gnomad'', [Bool False, Bool False])]\<rparr>"
  by code_simp

end
